theory Spec2Isabelle
  imports Complex_Main "HOL-Library.Multiset" "HOL-Library.Product_Lexorder"
begin

section \<open>Text fragments and Python string helpers\<close>

text \<open>
  A Python \<open>str\<close> is modelled as a \<open>string\<close> holding one \<open>char\<close> per code point, for the
  code points below 256 (Latin-1): \<open>\<section>\<close> is \<open>0xA7\<close>, \<open>\<copyright>\<close> is \<open>0xA9\<close>, a-umlaut is \<open>0xE4\<close>.
  Coordinates of a bounding box are modelled as reals.

  A fragment is the dictionary built by \<open>extract_text_with_layout\<close>:
  \<open>{'text', 'bbox': [x0, y0, x1, y1], 'page', 'font', 'size', 'flags'}\<close>; the fields
  \<open>text\<close> and \<open>size\<close> are named \<open>text_b\<close> and \<open>size_b\<close> here.
\<close>

record block =
  text_b :: string
  bbox :: "real \<times> real \<times> real \<times> real"
  page :: nat
  font :: string
  size_b :: real
  flags :: int

definition bbox0 :: "block \<Rightarrow> real" where
  \<comment> \<open>\<open>block['bbox'][0]\<close>\<close>
  "bbox0 b = fst (bbox b)"

definition bbox1 :: "block \<Rightarrow> real" where
  \<comment> \<open>\<open>block['bbox'][1]\<close>\<close>
  "bbox1 b = fst (snd (bbox b))"

definition code :: "char \<Rightarrow> nat" where
  "code c = of_char c"

definition isspace :: "char \<Rightarrow> bool" where
  \<comment> \<open>\<open>str.isspace\<close> and the regex class \<open>\s\<close> on the code points below 256:
      TAB..CR, FS..US, space, NEL and NBSP.\<close>
  "isspace c = (let n = code c in
     (9 \<le> n \<and> n \<le> 13) \<or> (28 \<le> n \<and> n \<le> 32) \<or> n = 133 \<or> n = 160)"

definition lstrip :: "string \<Rightarrow> string" where
  "lstrip s = dropWhile isspace s"

definition rstrip :: "string \<Rightarrow> string" where
  "rstrip s = rev (dropWhile isspace (rev s))"

definition strip :: "string \<Rightarrow> string" where
  \<comment> \<open>\<open>s.strip()\<close>\<close>
  "strip s = rstrip (lstrip s)"

definition rstrip_dot :: "string \<Rightarrow> string" where
  \<comment> \<open>\<open>s.rstrip('.')\<close>\<close>
  "rstrip_dot s = rev (dropWhile (\<lambda>c. c = CHR ''.'') (rev s))"

fun join :: "string \<Rightarrow> string list \<Rightarrow> string" where
  \<comment> \<open>\<open>sep.join(parts)\<close>\<close>
  "join sep [] = []"
| "join sep [p] = p"
| "join sep (p # q # ps) = p @ sep @ join sep (q # ps)"

section \<open>Column separator estimator\<close>

text \<open>
  \<open>find_column_separator\<close> (parse_pdf.py, lines 54-91). \<open>gaps_of\<close> is the loop of lines 79-82
  over the sorted positions, \<open>max_gap\<close> is \<open>max(gaps, key=lambda x: x[2])\<close>, which keeps the
  first of several largest gaps.
\<close>

fun gaps_of :: "real list \<Rightarrow> (real \<times> real \<times> real) list" where
  "gaps_of (a # b # xs) =
     (if b - a > 20 then (a, b, b - a) # gaps_of (b # xs) else gaps_of (b # xs))"
| "gaps_of xs = []"

fun max_gap :: "(real \<times> real \<times> real) \<Rightarrow> (real \<times> real \<times> real) list
    \<Rightarrow> (real \<times> real \<times> real)" where
  "max_gap best [] = best"
| "max_gap best (g # gs) =
     (if snd (snd g) > snd (snd best) then max_gap g gs else max_gap best gs)"

definition x_positions :: "block list \<Rightarrow> real list" where
  "x_positions blocks = map bbox0 (filter (\<lambda>b. strip (text_b b) \<noteq> []) blocks)"

definition find_column_separator :: "block list \<Rightarrow> real" where
  "find_column_separator blocks =
     (if blocks = [] then 0
      else let xs = x_positions blocks in
        if xs = [] then 0
        else let xs = sort xs; gaps = gaps_of xs in
          (case gaps of
             g # gs \<Rightarrow> (case max_gap g gs of (a, b, d) \<Rightarrow> (a + b) / 2)
           | [] \<Rightarrow> sort xs ! (length xs div 2)))"

section \<open>Regular expressions\<close>

text \<open>
  The patterns of the source are values of \<open>regex\<close>; \<open>ms\<close> is a backtracking matcher that
  returns every way a pattern can match at the current position, in the order in which
  Python's \<open>re\<close> tries them (left alternative first, greedy repetition longest first), so the
  head of the list is the match \<open>re\<close> reports. Repetition is needed on single-character
  matchers only. The flag \<open>ic\<close> is \<open>re.IGNORECASE\<close>.
\<close>

definition isdigit :: "char \<Rightarrow> bool" where
  \<comment> \<open>the class \<open>\d\<close>\<close>
  "isdigit c = (48 \<le> code c \<and> code c \<le> 57)"

definition isword :: "char \<Rightarrow> bool" where
  \<comment> \<open>the class \<open>\w\<close>: alphanumeric code points below 256, and the underscore\<close>
  "isword c = (let n = code c in
     (48 \<le> n \<and> n \<le> 57) \<or> (65 \<le> n \<and> n \<le> 90) \<or> n = 95 \<or> (97 \<le> n \<and> n \<le> 122) \<or>
     n = 170 \<or> n = 178 \<or> n = 179 \<or> n = 181 \<or> n = 185 \<or> n = 186 \<or>
     (188 \<le> n \<and> n \<le> 190) \<or> (192 \<le> n \<and> n \<le> 214) \<or> (216 \<le> n \<and> n \<le> 246) \<or>
     (248 \<le> n \<and> n \<le> 255))"

definition lower_c :: "char \<Rightarrow> char" where
  "lower_c c = (let n = code c in
     if (65 \<le> n \<and> n \<le> 90) \<or> (192 \<le> n \<and> n \<le> 222 \<and> n \<noteq> 215) then char_of (n + 32) else c)"

definition upper_c :: "char \<Rightarrow> char" where
  "upper_c c = (let n = code c in
     if (97 \<le> n \<and> n \<le> 122) \<or> (224 \<le> n \<and> n \<le> 254 \<and> n \<noteq> 247) then char_of (n - 32) else c)"

definition capitalize :: "string \<Rightarrow> string" where
  \<comment> \<open>\<open>s.capitalize()\<close>\<close>
  "capitalize s = (case s of [] \<Rightarrow> [] | c # cs \<Rightarrow> upper_c c # map lower_c cs)"

datatype cset = Chr char | Range char char | Digit | Space

datatype atom = Lit char | Cls "cset list" | NCls "cset list"

datatype regex =
    Atom atom
  | Seq regex regex
  | Alt regex regex
  | Eps
  | Rep nat "nat option" atom
  | Grp nat regex
  | Bol
  | Eol
  | WordB
  | Ahead regex

fun in_cset :: "char \<Rightarrow> cset \<Rightarrow> bool" where
  "in_cset c (Chr d) = (c = d)"
| "in_cset c (Range lo hi) = (code lo \<le> code c \<and> code c \<le> code hi)"
| "in_cset c Digit = isdigit c"
| "in_cset c Space = isspace c"

fun atom_raw :: "atom \<Rightarrow> char \<Rightarrow> bool" where
  "atom_raw (Lit d) c = (c = d)"
| "atom_raw (Cls items) c = list_ex (in_cset c) items"
| "atom_raw (NCls items) c = (\<not> list_ex (in_cset c) items)"

definition atom_ok :: "bool \<Rightarrow> atom \<Rightarrow> char \<Rightarrow> bool" where
  "atom_ok ic a c =
     (if ic then
        (case a of
           Lit d \<Rightarrow> lower_c c = lower_c d
         | _ \<Rightarrow> atom_raw a (lower_c c) \<or> atom_raw a (upper_c c))
      else atom_raw a c)"

type_synonym caps = "(nat \<times> string) list"

type_synonym mstate = "char option \<times> string \<times> caps"

definition prev_after :: "char option \<Rightarrow> string \<Rightarrow> nat \<Rightarrow> char option" where
  "prev_after pv rest j = (if j = 0 then pv else Some (rest ! (j - 1)))"

definition wordc :: "char option \<Rightarrow> bool" where
  "wordc x = (case x of None \<Rightarrow> False | Some c \<Rightarrow> isword c)"

definition first_of :: "string \<Rightarrow> char option" where
  "first_of s = (case s of [] \<Rightarrow> None | c # _ \<Rightarrow> Some c)"

fun ms :: "bool \<Rightarrow> regex \<Rightarrow> mstate \<Rightarrow> mstate list" where
  "ms ic (Atom a) (pv, rest, cs) =
     (case rest of [] \<Rightarrow> [] | x # xs \<Rightarrow> if atom_ok ic a x then [(Some x, xs, cs)] else [])"
| "ms ic (Seq r1 r2) st = concat (map (ms ic r2) (ms ic r1 st))"
| "ms ic (Alt r1 r2) st = ms ic r1 st @ ms ic r2 st"
| "ms ic Eps st = [st]"
| "ms ic (Rep m n a) (pv, rest, cs) =
     (let k = length (takeWhile (atom_ok ic a) (case n of None \<Rightarrow> rest | Some n' \<Rightarrow> take n' rest))
      in map (\<lambda>j. (prev_after pv rest j, drop j rest, cs)) (rev [m ..< Suc k]))"
| "ms ic (Grp g r) (pv, rest, cs) =
     map (\<lambda>(pv', rest', cs'). (pv', rest', (g, take (length rest - length rest') rest) # cs'))
       (ms ic r (pv, rest, cs))"
| "ms ic Bol (pv, rest, cs) = (if pv = None then [(pv, rest, cs)] else [])"
| "ms ic Eol (pv, rest, cs) =
     (if rest = [] \<or> rest = [CHR 0x0A] then [(pv, rest, cs)] else [])"
| "ms ic WordB (pv, rest, cs) =
     (if wordc pv \<noteq> wordc (first_of rest) then [(pv, rest, cs)] else [])"
| "ms ic (Ahead r) st = (if ms ic r st = [] then [] else [st])"

definition Opt :: "regex \<Rightarrow> regex" where
  \<comment> \<open>\<open>r?\<close>\<close>
  "Opt r = Alt r Eps"

definition seqs :: "regex list \<Rightarrow> regex" where
  "seqs rs = foldr Seq rs Eps"

definition lits :: "string \<Rightarrow> regex" where
  "lits s = seqs (map (\<lambda>c. Atom (Lit c)) s)"

fun alts :: "regex list \<Rightarrow> regex" where
  "alts [] = Eps"
| "alts [r] = r"
| "alts (r # rs) = Alt r (alts rs)"

record rmatch =
  m_start :: nat
  m_end :: nat
  m_caps :: caps

definition group :: "rmatch \<Rightarrow> nat \<Rightarrow> string option" where
  \<comment> \<open>\<open>match.group(g)\<close>; \<open>None\<close> when the group took no part in the match\<close>
  "group m g = map_of (m_caps m) g"

definition re_match :: "bool \<Rightarrow> regex \<Rightarrow> string \<Rightarrow> rmatch option" where
  \<comment> \<open>\<open>re.match(pattern, s)\<close>: a match at the start of \<open>s\<close>\<close>
  "re_match ic r s =
     (case ms ic r (None, s, []) of
        [] \<Rightarrow> None
      | (pv, rest, cs) # _ \<Rightarrow> Some \<lparr>m_start = 0, m_end = length s - length rest, m_caps = cs\<rparr>)"

fun search_from :: "bool \<Rightarrow> regex \<Rightarrow> nat \<Rightarrow> char option \<Rightarrow> string \<Rightarrow> rmatch option" where
  "search_from ic r pos pv rest =
     (case ms ic r (pv, rest, []) of
        (pv', rest', cs) # _ \<Rightarrow>
          Some \<lparr>m_start = pos, m_end = pos + (length rest - length rest'), m_caps = cs\<rparr>
      | [] \<Rightarrow> (case rest of [] \<Rightarrow> None | x # xs \<Rightarrow> search_from ic r (Suc pos) (Some x) xs))"

definition re_search :: "bool \<Rightarrow> regex \<Rightarrow> string \<Rightarrow> rmatch option" where
  \<comment> \<open>\<open>re.search(pattern, s)\<close>: the leftmost match\<close>
  "re_search ic r s = search_from ic r 0 None s"

function sub_from :: "bool \<Rightarrow> regex \<Rightarrow> (caps \<Rightarrow> string) \<Rightarrow> char option \<Rightarrow> string \<Rightarrow> string" where
  "sub_from ic r repl pv rest =
     (case ms ic r (pv, rest, []) of
        (pv', rest', cs) # _ \<Rightarrow>
          if length rest' < length rest then repl cs @ sub_from ic r repl pv' rest'
          else repl cs @ (case rest of [] \<Rightarrow> [] | x # xs \<Rightarrow> x # sub_from ic r repl (Some x) xs)
      | [] \<Rightarrow> (case rest of [] \<Rightarrow> [] | x # xs \<Rightarrow> x # sub_from ic r repl (Some x) xs))"
  by pat_completeness auto
termination
  by (relation "measure (\<lambda>(ic, r, repl, pv, rest). length rest)") auto

definition re_sub :: "bool \<Rightarrow> regex \<Rightarrow> (caps \<Rightarrow> string) \<Rightarrow> string \<Rightarrow> string" where
  \<comment> \<open>\<open>re.sub(pattern, repl, s)\<close>: every non-overlapping match, left to right, replaced\<close>
  "re_sub ic r repl s = sub_from ic r repl None s"

definition group_or_empty :: "nat \<Rightarrow> caps \<Rightarrow> string" where
  \<comment> \<open>the replacement \<open>\1\<close>\<close>
  "group_or_empty g cs = (case map_of cs g of Some s \<Rightarrow> s | None \<Rightarrow> [])"

section \<open>Sections and articles\<close>

datatype json =
    JNull
  | JBool bool
  | JNum rat
  | JStr string
  | JList "json list"
  | JDict "(string \<times> json) list"

datatype error = ValueError | KeyError | TypeError | AttributeError

text \<open>
  An article is the dictionary \<open>{'article_number', 'article_title', 'article_content'}\<close>, to
  which the enrichment adds \<open>article_summary\<close>, \<open>article_intention\<close> and \<open>article_keywords\<close>; a
  key that is absent is \<open>None\<close>.
\<close>

record article =
  article_number :: string
  article_title :: string
  article_content :: string
  article_summary :: "json option"
  article_intention :: "json option"
  article_keywords :: "json option"

record sect =
  section_title :: string
  articles :: "article list"

subsection \<open>Patterns of the segmenter\<close>

definition digits1 :: regex where
  \<comment> \<open>\<open>\d+\<close>\<close>
  "digits1 = Rep 1 None (Cls [Digit])"

definition spaces0 :: regex where
  \<comment> \<open>\<open>\s*\<close>\<close>
  "spaces0 = Rep 0 None (Cls [Space])"

definition spaces1 :: regex where
  \<comment> \<open>\<open>\s+\<close>\<close>
  "spaces1 = Rep 1 None (Cls [Space])"

definition section_numeral_pattern :: regex where
  \<comment> \<open>\<open>^[IVX]+\.?\s*$\<close>\<close>
  "section_numeral_pattern =
     seqs [Bol, Rep 1 None (Cls [Chr CHR ''I'', Chr CHR ''V'', Chr CHR ''X'']),
           Opt (Atom (Lit CHR ''.'')), spaces0, Eol]"

definition sub_marker_pattern :: regex where
  \<comment> \<open>\<open>^[A-Z]\.?$\<close>\<close>
  "sub_marker_pattern =
     seqs [Bol, Atom (Cls [Range CHR ''A'' CHR ''Z'']), Opt (Atom (Lit CHR ''.'')), Eol]"

definition article_tail :: "regex list" where
  \<comment> \<open>\<open>(\d+)[:\s]*([^\n]*)\<close>\<close>
  "article_tail =
     [Grp 1 digits1, Rep 0 None (Cls [Chr CHR '':'', Space]), Grp 2 (Rep 0 None (NCls [Chr CHR 0x0A]))]"

definition article_patterns :: "regex list" where
  "article_patterns =
     [seqs (lits ''Article'' # spaces1 # article_tail),
      seqs (lits ''Art'' # Atom (Lit CHR ''.'') # spaces0 # article_tail),
      seqs (Atom (Lit (CHR 0xA7)) # spaces0 # article_tail),
      seqs (lits ''Section'' # spaces1 # article_tail),
      seqs [Grp 1 digits1, Atom (Lit CHR ''.''), spaces0, Grp 2 (Rep 0 None (NCls [Chr CHR 0x0A]))]]"

fun match_article :: "regex list \<Rightarrow> string \<Rightarrow> (string \<times> string) option" where
  \<comment> \<open>the loop of lines 164-186 up to its first match: \<open>match.group(1)\<close> and
      \<open>match.group(2).strip()\<close>\<close>
  "match_article [] t = None"
| "match_article (p # ps) t =
     (case re_match True p t of
        Some m \<Rightarrow> Some (group_or_empty 1 (m_caps m), strip (group_or_empty 2 (m_caps m)))
      | None \<Rightarrow> match_article ps t)"

subsection \<open>The state machine\<close>

record seg_state =
  sections :: "sect list"
  current_section :: "sect option"
  current_article :: "article option"
  current_title_blocks :: "string list"
  current_content_blocks :: "string list"

definition init_state :: seg_state where
  "init_state = \<lparr>sections = [], current_section = None, current_article = None,
     current_title_blocks = [], current_content_blocks = []\<rparr>"

definition flush_article :: "seg_state \<Rightarrow> seg_state" where
  \<comment> \<open>lines 168-172 (and 144-148, 195-199): title and content of the open article are
      joined, and the article is appended to the open section, when there is one\<close>
  "flush_article st =
     (case current_article st of
        None \<Rightarrow> st
      | Some a \<Rightarrow>
          let a' = a\<lparr>article_title := strip (join '' '' (current_title_blocks st)),
                     article_content := strip (join '' '' (current_content_blocks st))\<rparr>
          in st\<lparr>current_article := Some a',
                current_section :=
                  (case current_section st of
                     None \<Rightarrow> None
                   | Some sec \<Rightarrow> Some (sec\<lparr>articles := articles sec @ [a']\<rparr>))\<rparr>)"

fun look_ahead :: "block list \<Rightarrow> string list \<Rightarrow> string list \<times> block list" where
  \<comment> \<open>the inner loop of lines 129-139: the title parts, and the fragments after index \<open>j\<close>\<close>
  "look_ahead [] parts = (parts, [])"
| "look_ahead (b # bs) parts =
     (let next_text = strip (text_b b) in
      if next_text \<noteq> [] then
        (if re_match False sub_marker_pattern next_text \<noteq> None
         then look_ahead bs (parts @ [rstrip_dot next_text])
         else (parts @ [next_text], bs))
      else look_ahead bs parts)"

definition open_section :: "seg_state \<Rightarrow> string \<Rightarrow> seg_state" where
  \<comment> \<open>lines 143-159\<close>
  "open_section st title =
     (let st1 = (case current_article st of
                   Some a \<Rightarrow> (flush_article st)\<lparr>current_article := None,
                                 current_title_blocks := [], current_content_blocks := []\<rparr>
                 | None \<Rightarrow> st);
          st2 = (case current_section st1 of
                   Some sec \<Rightarrow> st1\<lparr>sections := sections st1 @ [sec]\<rparr>
                 | None \<Rightarrow> st1)
      in st2\<lparr>current_section := Some \<lparr>section_title = strip title, articles = []\<rparr>\<rparr>)"

definition open_article :: "seg_state \<Rightarrow> string \<Rightarrow> string \<Rightarrow> seg_state" where
  \<comment> \<open>lines 167-185\<close>
  "open_article st num title_text =
     (flush_article st)\<lparr>
        current_article := Some \<lparr>article_number = num, article_title = [], article_content = [],
          article_summary = None, article_intention = None, article_keywords = None\<rparr>,
        current_title_blocks := (if title_text \<noteq> [] then [title_text] else []),
        current_content_blocks := []\<rparr>"

definition seg_step :: "real \<Rightarrow> seg_state \<Rightarrow> block \<Rightarrow> block list \<Rightarrow> seg_state \<times> block list" where
  \<comment> \<open>one iteration of the loop of lines 118-193 at the fragment \<open>b = blocks[i]\<close>, with
      \<open>rest = blocks[i+1:]\<close>: the new state and the fragments from the new \<open>i\<close> on\<close>
  "seg_step column_separator st b rest =
     (let t = strip (text_b b) in
      if t = [] then (st, rest)
      else if re_match False section_numeral_pattern t \<noteq> None then
        (let numeral = rstrip_dot t;
             (title_parts, rest') = look_ahead rest [];
             section_title = (if title_parts \<noteq> [] then numeral @ ''. '' @ join '' '' title_parts
                              else numeral)
         in (open_section st section_title, rest'))
      else
        (case match_article article_patterns t of
           Some (num, title_text) \<Rightarrow> (open_article st num title_text, rest)
         | None \<Rightarrow>
             (case current_article st of
                Some a \<Rightarrow>
                  (if bbox0 b < column_separator
                   then (st\<lparr>current_title_blocks := current_title_blocks st @ [text_b b]\<rparr>, rest)
                   else (st\<lparr>current_content_blocks := current_content_blocks st @ [text_b b]\<rparr>, rest))
              | None \<Rightarrow> (st, rest))))"

lemma look_ahead_length: "length (snd (look_ahead bs parts)) \<le> length bs"
  by (induction bs parts rule: look_ahead.induct) (auto simp: Let_def le_SucI)

lemma seg_step_length: "length (snd (seg_step sep st b rest)) \<le> length rest"
  using look_ahead_length[of rest "[]"]
  by (auto simp: seg_step_def Let_def split: prod.splits option.splits)

lemma seg_step_shorter:
  "(case seg_step sep st b rest of (st', rest') \<Rightarrow> length rest') < Suc (length rest)"
  using seg_step_length[of sep st b rest] by (simp add: case_prod_beta less_Suc_eq_le)

function seg_loop :: "real \<Rightarrow> seg_state \<Rightarrow> block list \<Rightarrow> seg_state" where
  "seg_loop column_separator st [] = st"
| "seg_loop column_separator st (b # rest) =
     (case seg_step column_separator st b rest of
        (st', rest') \<Rightarrow> seg_loop column_separator st' rest')"
  by pat_completeness auto
termination
  by (relation "measure (\<lambda>(sep, st, bs). length bs)") (simp_all add: seg_step_shorter)

definition split_into_sections_and_articles_with_layout :: "block list \<Rightarrow> sect list" where
  "split_into_sections_and_articles_with_layout blocks =
     (let column_separator = find_column_separator blocks;
          st = flush_article (seg_loop column_separator init_state blocks)
      in case current_section st of
           Some sec \<Rightarrow> sections st @ [sec]
         | None \<Rightarrow> sections st)"

section \<open>Metadata extractor\<close>

definition and_then :: "error + 'a \<Rightarrow> ('a \<Rightarrow> error + 'b) \<Rightarrow> error + 'b" where
  \<comment> \<open>sequencing of statements that may raise\<close>
  "and_then x f = (case x of Inl e \<Rightarrow> Inl e | Inr v \<Rightarrow> f v)"

definition py_int :: "string \<Rightarrow> error + int" where
  \<comment> \<open>\<open>int(s)\<close> on a string of decimal digits; anything else is a \<open>ValueError\<close> here\<close>
  "py_int s =
     (if s \<noteq> [] \<and> list_all isdigit s
      then Inr (foldl (\<lambda>a c. 10 * a + (int (code c) - 48)) 0 s)
      else Inl ValueError)"

definition is_leap :: "int \<Rightarrow> bool" where
  "is_leap y = (y mod 4 = 0 \<and> (y mod 100 \<noteq> 0 \<or> y mod 400 = 0))"

definition days_in_month :: "int \<Rightarrow> int \<Rightarrow> int" where
  "days_in_month y m =
     (if m = 2 then (if is_leap y then 29 else 28)
      else if m = 4 \<or> m = 6 \<or> m = 9 \<or> m = 11 then 30 else 31)"

definition make_date :: "int \<Rightarrow> int \<Rightarrow> int \<Rightarrow> error + (int \<times> int \<times> int)" where
  \<comment> \<open>\<open>datetime.date(y, m, d)\<close>, a \<open>ValueError\<close> when out of range\<close>
  "make_date y m d =
     (if 1 \<le> y \<and> y \<le> 9999 \<and> 1 \<le> m \<and> m \<le> 12 \<and> 1 \<le> d \<and> d \<le> days_in_month y m
      then Inr (y, m, d) else Inl ValueError)"

definition digit_char :: "int \<Rightarrow> char" where
  "digit_char n = char_of (48 + n mod 10)"

definition strftime :: "int \<times> int \<times> int \<Rightarrow> string" where
  \<comment> \<open>\<open>dt.strftime('%d.%m.%Y')\<close>, the year written with four digits\<close>
  "strftime dt = (case dt of (y, m, d) \<Rightarrow>
     [digit_char (d div 10), digit_char d, CHR ''.'', digit_char (m div 10), digit_char m, CHR ''.'',
      digit_char (y div 1000), digit_char (y div 100), digit_char (y div 10), digit_char y])"

definition months_en :: "(string \<times> int) list" where
  "months_en = zip [''January'', ''February'', ''March'', ''April'', ''May'', ''June'', ''July'',
     ''August'', ''September'', ''October'', ''November'', ''December''] [1, 2, 3, 4, 5, 6, 7, 8, 9, 10, 11, 12]"

definition Maerz :: string where
  \<comment> \<open>the month name with a-umlaut, \<open>0xE4\<close>\<close>
  "Maerz = [CHR ''M'', CHR 0xE4, CHR ''r'', CHR ''z'']"

definition months_de :: "(string \<times> int) list" where
  "months_de = zip [''Januar'', ''Februar'', Maerz, ''April'', ''Mai'', ''Juni'', ''Juli'',
     ''August'', ''September'', ''Oktober'', ''November'', ''Dezember''] [1, 2, 3, 4, 5, 6, 7, 8, 9, 10, 11, 12]"

definition lookup :: "(string \<times> int) list \<Rightarrow> string \<Rightarrow> error + int" where
  \<comment> \<open>\<open>months[key]\<close>\<close>
  "lookup d k = (case map_of d k of None \<Rightarrow> Inl KeyError | Some v \<Rightarrow> Inr v)"

definition digits_1_2 :: regex where
  \<comment> \<open>\<open>\d{1,2}\<close>\<close>
  "digits_1_2 = Rep 1 (Some 2) (Cls [Digit])"

definition digits_4 :: regex where
  \<comment> \<open>\<open>\d{4}\<close>\<close>
  "digits_4 = Rep 4 (Some 4) (Cls [Digit])"

definition slash_dash :: regex where
  \<comment> \<open>\<open>[/-]\<close>\<close>
  "slash_dash = Atom (Cls [Chr CHR ''/'', Chr CHR ''-''])"

definition month_names_en :: regex where
  "month_names_en = alts (map (lits \<circ> fst) months_en)"

definition month_names_de :: regex where
  "month_names_de = alts (map (lits \<circ> fst) months_de)"

definition date_patterns :: "regex list" where
  "date_patterns =
     [seqs [WordB, Grp 1 digits_1_2, slash_dash, Grp 2 digits_1_2, slash_dash,
            Grp 3 (Rep 2 (Some 4) (Cls [Digit])), WordB],
      seqs [WordB, Grp 1 digits_4, slash_dash, Grp 2 digits_1_2, slash_dash, Grp 3 digits_1_2, WordB],
      seqs [WordB, Grp 1 month_names_en, spaces1, Grp 2 digits_1_2, Opt (Atom (Lit CHR '','')),
            spaces1, Grp 3 digits_4, WordB],
      seqs [WordB, Grp 1 month_names_de, spaces1, Grp 2 digits_1_2, Opt (Atom (Lit CHR '','')),
            spaces1, Grp 3 digits_4, WordB],
      seqs [WordB, Grp 1 digits_1_2, Atom (Lit CHR ''.''), spaces0, Grp 2 month_names_de, spaces0,
            Grp 3 digits_4, WordB]]"

definition groups3 :: "rmatch \<Rightarrow> error + (string \<times> string \<times> string)" where
  \<comment> \<open>\<open>a, b, c = match.groups()\<close>; a group that took no part is \<open>None\<close> in Python, and its
      use raises a \<open>TypeError\<close>\<close>
  "groups3 m =
     (case (group m 1, group m 2, group m 3) of
        (Some a, Some b, Some c) \<Rightarrow> Inr (a, b, c)
      | _ \<Rightarrow> Inl TypeError)"

definition pivot_year :: "string \<Rightarrow> error + string" where
  \<comment> \<open>lines 250-251\<close>
  "pivot_year y =
     (if length y = 2
      then and_then (py_int y) (\<lambda>n. Inr (if n < 50 then ''20'' @ y else ''19'' @ y))
      else Inr y)"

definition date_of_match :: "nat \<Rightarrow> rmatch \<Rightarrow> error + string" where
  \<comment> \<open>the body of the \<open>try\<close> of lines 247-268, for the pattern of index \<open>k\<close>\<close>
  "date_of_match k mt =
     and_then (groups3 mt) (\<lambda>(g1, g2, g3).
       and_then
         (if k = 0 then
            and_then (pivot_year g3) (\<lambda>y. and_then (py_int y) (\<lambda>yi.
            and_then (py_int g2) (\<lambda>mi. and_then (py_int g1) (\<lambda>di. make_date yi mi di))))
          else if k = 1 then
            and_then (py_int g1) (\<lambda>yi. and_then (py_int g2) (\<lambda>mi.
            and_then (py_int g3) (\<lambda>di. make_date yi mi di)))
          else if k = 2 then
            and_then (lookup months_en (capitalize g1)) (\<lambda>mi. and_then (py_int g3) (\<lambda>yi.
            and_then (py_int g2) (\<lambda>di. make_date yi mi di)))
          else if k = 3 then
            and_then (lookup months_de (capitalize g1)) (\<lambda>mi. and_then (py_int g3) (\<lambda>yi.
            and_then (py_int g2) (\<lambda>di. make_date yi mi di)))
          else
            and_then (lookup months_de (capitalize g2)) (\<lambda>mi. and_then (py_int g3) (\<lambda>yi.
            and_then (py_int g1) (\<lambda>di. make_date yi mi di))))
         (\<lambda>dt. Inr (strftime dt)))"

fun find_date :: "nat \<Rightarrow> regex list \<Rightarrow> string \<Rightarrow> string" where
  \<comment> \<open>the loop of lines 244-271 from the pattern of index \<open>k\<close> on: \<open>found_date\<close>\<close>
  "find_date k [] all_text = []"
| "find_date k (pattern # ps) all_text =
     (case re_search True pattern all_text of
        Some mt \<Rightarrow>
          (case date_of_match k mt of
             Inr found \<Rightarrow> found
           | Inl e \<Rightarrow> find_date (Suc k) ps all_text)
      | None \<Rightarrow> find_date (Suc k) ps all_text)"

definition header_pattern :: regex where
  \<comment> \<open>\<open>^(Page|Seite|\<copyright>|Copyright)\<close>\<close>
  "header_pattern =
     Seq Bol (Grp 1 (alts [lits ''Page'', lits ''Seite'', Atom (Lit (CHR 0xA9)), lits ''Copyright'']))"

fun find_title :: "block list \<Rightarrow> string" where
  \<comment> \<open>the loop of lines 226-232\<close>
  "find_title [] = []"
| "find_title (b # bs) =
     (let t = strip (text_b b) in
      if t \<noteq> [] \<and> re_match True header_pattern t = None then take 200 t else find_title bs)"

record metadata =
  title :: string
  date :: string

definition all_text :: "block list \<Rightarrow> string" where
  "all_text blocks = join '' '' (map text_b blocks)"

definition extract_metadata_from_blocks :: "block list \<Rightarrow> metadata" where
  "extract_metadata_from_blocks blocks =
     (let sorted_blocks = sort_key (\<lambda>x. (page x, bbox1 x, bbox0 x)) blocks
      in \<lparr>title = find_title (take 10 sorted_blocks),
          date = find_date 0 date_patterns (all_text blocks)\<rparr>)"

section \<open>Text normalizer\<close>

definition hyphen_pattern :: regex where
  \<comment> \<open>\<open>-\s*\n?\s*([a-zA-Z...])\<close>, the class holding the letters and the German umlauts and
      sharp s\<close>
  "hyphen_pattern =
     seqs [Atom (Lit CHR ''-''), spaces0, Opt (Atom (Lit (CHR 0x0A))), spaces0,
           Grp 1 (Atom (Cls [Range CHR ''a'' CHR ''z'', Range CHR ''A'' CHR ''Z'',
              Chr (CHR 0xE4), Chr (CHR 0xF6), Chr (CHR 0xFC), Chr (CHR 0xC4), Chr (CHR 0xD6),
              Chr (CHR 0xDC), Chr (CHR 0xDF)]))]"

definition join_broken_words :: "string \<Rightarrow> string" where
  "join_broken_words t =
     (if t = [] then t
      else map (\<lambda>c. if c = CHR 0x0A then CHR '' '' else c)
             (re_sub False hyphen_pattern (group_or_empty 1) t))"

definition trailing_page_pattern :: regex where
  \<comment> \<open>\<open>(Seite|Page)?\s*\d+\s*$\<close>\<close>
  "trailing_page_pattern =
     seqs [Opt (Grp 1 (Alt (lits ''Seite'') (lits ''Page''))), spaces0, digits1, spaces0, Eol]"

definition remove_trailing_page_numbers :: "string \<Rightarrow> string" where
  "remove_trailing_page_numbers t =
     (if t = [] then t
      else re_sub False (Seq spaces1 Eol) (\<lambda>_. [])
             (re_sub True trailing_page_pattern (\<lambda>_. []) t))"

definition section_marker_pattern :: regex where
  \<comment> \<open>\<open>(\s{0,2}(?:[IVX]+\.|[A-Z]\.)\s*)\<close>\<close>
  "section_marker_pattern =
     Grp 1 (seqs [Rep 0 (Some 2) (Cls [Space]),
       Alt (Seq (Rep 1 None (Cls [Chr CHR ''I'', Chr CHR ''V'', Chr CHR ''X''])) (Atom (Lit CHR ''.'')))
           (Seq (Atom (Cls [Range CHR ''A'' CHR ''Z''])) (Atom (Lit CHR ''.''))),
       spaces0])"

definition collapse_ws :: "string \<Rightarrow> string" where
  \<comment> \<open>\<open>re.sub(r'\s+', ' ', s)\<close>\<close>
  "collapse_ws s = re_sub False spaces1 (\<lambda>_. '' '') s"

definition remove_section_titles_from_title :: "string \<Rightarrow> string" where
  "remove_section_titles_from_title ti =
     (let cleaned = (case re_search False section_marker_pattern ti of
                       Some mt \<Rightarrow> strip (take (m_start mt) ti)
                     | None \<Rightarrow> strip ti)
      in collapse_ws cleaned)"

definition mid_page_pattern :: regex where
  \<comment> \<open>\<open>(?:^|[ ]{4,})(\d{1,3})(?=[ ]{4,}|$)\<close>\<close>
  "mid_page_pattern =
     seqs [Alt Bol (Rep 4 None (Lit CHR '' '')), Grp 1 (Rep 1 (Some 3) (Cls [Digit])),
           Ahead (Alt (Rep 4 None (Lit CHR '' '')) Eol)]"

definition clean_article :: "article \<Rightarrow> article" where
  \<comment> \<open>the body of the inner loop of lines 394-406\<close>
  "clean_article a =
     (let t = join_broken_words (article_title a);
          t = remove_section_titles_from_title t;
          t = strip (collapse_ws t);
          content = article_content a;
          content = join_broken_words content;
          content = re_sub False mid_page_pattern (\<lambda>_. []) content;
          content = remove_trailing_page_numbers content;
          content = strip (collapse_ws content)
      in a\<lparr>article_title := t, article_content := content\<rparr>)"

definition clean_section :: "sect \<Rightarrow> sect" where
  \<comment> \<open>the body of the loop of lines 391-406\<close>
  "clean_section s =
     s\<lparr>section_title := strip (collapse_ws (join_broken_words (section_title s))),
       articles := map clean_article (articles s)\<rparr>"

definition clean_section_article_text :: "sect list \<Rightarrow> sect list" where
  "clean_section_article_text secs = map clean_section secs"

section \<open>Annotation collaborator\<close>

text \<open>
  The HTTP exchange of llm_openrouter.py is a parameter: \<open>post\<close> maps the request to either
  the text \<open>result['choices'][0]['message']['content']\<close> or the message of the exception that
  the request, its status check or the decoding of its envelope raised. \<open>json.loads\<close> is the
  parameter \<open>loads\<close>, \<open>None\<close> when it raises.
\<close>

datatype api_response = ApiError string | ApiContent string

definition fence_open_pattern :: regex where
  \<comment> \<open>\<open>^```json|^```python|^```\<close>\<close>
  "fence_open_pattern =
     alts [Seq Bol (lits ''```json''), Seq Bol (lits ''```python''), Seq Bol (lits ''```'')]"

definition fence_close_pattern :: regex where
  \<comment> \<open>\<open>```$\<close>\<close>
  "fence_close_pattern = Seq (lits ''```'') Eol"

definition strip_fences :: "string \<Rightarrow> string" where
  \<comment> \<open>lines 68-70\<close>
  "strip_fences content =
     (let content = re_sub True fence_open_pattern (\<lambda>_. []) (strip content);
          content = re_sub True fence_close_pattern (\<lambda>_. []) (strip content)
      in strip content)"

definition empty_annotation :: "string \<Rightarrow> string \<Rightarrow> json" where
  \<comment> \<open>\<open>{"summary": "", "intention": "", "keywords": "", tag: value}\<close>\<close>
  "empty_annotation tag v =
     JDict [(''summary'', JStr []), (''intention'', JStr []), (''keywords'', JStr []), (tag, JStr v)]"

fun is_dict :: "json \<Rightarrow> bool" where
  "is_dict (JDict kvs) = True"
| "is_dict j = False"

fun is_str :: "json \<Rightarrow> bool" where
  "is_str (JStr s) = True"
| "is_str j = False"

fun parse_element :: "(string \<Rightarrow> json option) \<Rightarrow> json \<Rightarrow> json" where
  \<comment> \<open>lines 78-82, for an element that is a string\<close>
  "parse_element loads (JStr x) =
     (case loads x of Some v \<Rightarrow> v | None \<Rightarrow> empty_annotation ''raw'' x)"
| "parse_element loads j = j"

definition analyze_articles_batch_with_mistral ::
    "(string \<Rightarrow> json option) \<Rightarrow> (string list \<Rightarrow> api_response) \<Rightarrow> string list \<Rightarrow> json list" where
  "analyze_articles_batch_with_mistral loads post article_texts =
     (case post article_texts of
        ApiError e \<Rightarrow> replicate (length article_texts) (empty_annotation ''error'' e)
      | ApiContent raw \<Rightarrow>
          (let content = strip_fences raw in
           case loads content of
             Some (JList parsed) \<Rightarrow>
               if list_all is_dict parsed then parsed
               else if list_all is_str parsed then map (parse_element loads) parsed
               else replicate (length article_texts) (empty_annotation ''raw'' content)
           | Some (JDict kvs) \<Rightarrow> [JDict kvs]
           | _ \<Rightarrow> replicate (length article_texts) (empty_annotation ''raw'' content)))"

definition analyze_document_with_mistral ::
    "(string \<Rightarrow> json option) \<Rightarrow> (string \<Rightarrow> api_response) \<Rightarrow> string \<Rightarrow> json" where
  "analyze_document_with_mistral loads post document_text =
     (case post document_text of
        ApiError e \<Rightarrow>
          JDict [(''summary'', JStr []), (''intention'', JStr []), (''keywords'', JStr []),
                 (''title'', JStr []), (''error'', JStr e)]
      | ApiContent content \<Rightarrow>
          (case loads content of
             Some v \<Rightarrow> v
           | None \<Rightarrow>
               JDict [(''summary'', JStr []), (''intention'', JStr []), (''keywords'', JStr []),
                      (''title'', JStr []), (''raw'', JStr content)]))"

section \<open>Document assembly\<close>

text \<open>
  The result of \<open>parse_pdf\<close>; the keys \<open>document_summary\<close>, \<open>document_intention\<close> and
  \<open>document_keywords\<close> are present only after enrichment. The key \<open>sections\<close> is the field
  \<open>result_sections\<close>.
\<close>

record document =
  document_title :: json
  document_date :: string
  document_summary :: "json option"
  document_intention :: "json option"
  document_keywords :: "json option"
  result_sections :: "sect list"

datatype call = DocumentCall string | BatchCall "string list"

record collaborator =
  loads :: "string \<Rightarrow> json option"
  post_document :: "string \<Rightarrow> api_response"
  post_batch :: "string list \<Rightarrow> api_response"

definition dict_get :: "json \<Rightarrow> string \<Rightarrow> error + json" where
  \<comment> \<open>\<open>x.get(key, '')\<close>; only a dictionary has the method\<close>
  "dict_get j k =
     (case j of
        JDict kvs \<Rightarrow> Inr (case map_of kvs k of Some v \<Rightarrow> v | None \<Rightarrow> JStr [])
      | _ \<Rightarrow> Inl AttributeError)"

fun truthy :: "json \<Rightarrow> bool" where
  "truthy JNull = False"
| "truthy (JBool b) = b"
| "truthy (JNum n) = (n \<noteq> 0)"
| "truthy (JStr s) = (s \<noteq> [])"
| "truthy (JList xs) = (xs \<noteq> [])"
| "truthy (JDict kvs) = (kvs \<noteq> [])"

fun merge_batch :: "article list \<Rightarrow> json list \<Rightarrow> error + article list" where
  \<comment> \<open>the loop of lines 316-319 over \<open>zip(batch, llm_results)\<close>\<close>
  "merge_batch (a # as) (r # rs) =
     and_then (dict_get r ''summary'') (\<lambda>s.
     and_then (dict_get r ''intention'') (\<lambda>i.
     and_then (dict_get r ''keywords'') (\<lambda>k.
     and_then (merge_batch as rs) (\<lambda>as'.
       Inr (a\<lparr>article_summary := Some s, article_intention := Some i,
               article_keywords := Some k\<rparr> # as')))))"
| "merge_batch as rs = Inr as"

function enhance_articles ::
    "collaborator \<Rightarrow> article list \<Rightarrow> call list \<Rightarrow> call list \<times> (error + article list)" where
  \<comment> \<open>the loop of lines 311-319 over the batches of five of one section\<close>
  "enhance_articles c arts calls =
     (if arts = [] then (calls, Inr [])
      else
        let batch = take 5 arts;
            batch_texts = map article_content batch;
            llm_results = analyze_articles_batch_with_mistral (loads c) (post_batch c) batch_texts;
            calls = calls @ [BatchCall batch_texts]
        in case merge_batch batch llm_results of
             Inl e \<Rightarrow> (calls, Inl e)
           | Inr batch' \<Rightarrow>
               (case enhance_articles c (drop 5 arts) calls of
                  (calls', Inl e) \<Rightarrow> (calls', Inl e)
                | (calls', Inr rest') \<Rightarrow> (calls', Inr (batch' @ rest'))))"
  by pat_completeness auto
termination
  by (relation "measure (\<lambda>(c, arts, calls). length arts)") auto

fun enhance_sections ::
    "collaborator \<Rightarrow> sect list \<Rightarrow> call list \<Rightarrow> call list \<times> (error + sect list)" where
  \<comment> \<open>the loop of lines 306-319 over the sections\<close>
  "enhance_sections c [] calls = (calls, Inr [])"
| "enhance_sections c (s # ss) calls =
     (case enhance_articles c (articles s) calls of
        (calls', Inl e) \<Rightarrow> (calls', Inl e)
      | (calls', Inr arts') \<Rightarrow>
          (case enhance_sections c ss calls' of
             (calls'', Inl e) \<Rightarrow> (calls'', Inl e)
           | (calls'', Inr ss') \<Rightarrow> (calls'', Inr (s\<lparr>articles := arts'\<rparr> # ss'))))"

definition parse_pdf :: "collaborator \<Rightarrow> block list \<Rightarrow> bool \<Rightarrow> call list \<times> (error + document)" where
  \<comment> \<open>\<open>parse_pdf\<close> from the extracted fragments on: the calls made to the collaborator, in
      order, and the result or the exception that escapes\<close>
  "parse_pdf c blocks enhance =
     (let md = extract_metadata_from_blocks blocks;
          secs = clean_section_article_text (split_into_sections_and_articles_with_layout blocks)
      in
      if enhance then
        (let full_text = join [CHR 0x0A] (map article_content (concat (map articles secs)));
             doc_result = analyze_document_with_mistral (loads c) (post_document c) full_text;
             calls = [DocumentCall full_text]
         in
         case and_then (dict_get doc_result ''summary'') (\<lambda>s.
              and_then (dict_get doc_result ''intention'') (\<lambda>i.
              and_then (dict_get doc_result ''keywords'') (\<lambda>k.
              and_then (dict_get doc_result ''title'') (\<lambda>t. Inr (s, i, k, t))))) of
           Inl e \<Rightarrow> (calls, Inl e)
         | Inr (s, i, k, t) \<Rightarrow>
             (case enhance_sections c secs calls of
                (calls', Inl e) \<Rightarrow> (calls', Inl e)
              | (calls', Inr secs') \<Rightarrow>
                  (calls', Inr \<lparr>document_title = (if truthy t then t else JStr (title md)),
                     document_date = date md,
                     document_summary = Some s, document_intention = Some i,
                     document_keywords = Some k, result_sections = secs'\<rparr>)))
      else
        ([], Inr \<lparr>document_title = JStr (title md), document_date = date md,
               document_summary = None, document_intention = None, document_keywords = None,
               result_sections = secs\<rparr>))"

section \<open>Notions used to state the properties\<close>

text \<open>
  An article is \<open>plain\<close> when it has none of the three enrichment keys; a segmenter state is
  plain when every article it holds is.
\<close>

definition plain :: "article \<Rightarrow> bool" where
  "plain a = (article_summary a = None \<and> article_intention a = None \<and> article_keywords a = None)"

definition plain_state :: "seg_state \<Rightarrow> bool" where
  "plain_state st =
     ((\<forall>s \<in> set (sections st). \<forall>a \<in> set (articles s). plain a) \<and>
      (\<forall>s. current_section st = Some s \<longrightarrow> (\<forall>a \<in> set (articles s). plain a)) \<and>
      (\<forall>a. current_article st = Some a \<longrightarrow> plain a))"

text \<open>
  The sub-section marker in the words of the specification: a roman numeral and a dot, or a
  single capital letter and a dot (\<open>marker_core\<close>), after at most two whitespace characters
  (\<open>marker_at\<close>). \<open>first_suffix P s\<close> is the least position at which the rest of \<open>s\<close>
  satisfies \<open>P\<close>.
\<close>

definition is_roman :: "char \<Rightarrow> bool" where
  "is_roman c = (c = CHR ''I'' \<or> c = CHR ''V'' \<or> c = CHR ''X'')"

definition is_capital :: "char \<Rightarrow> bool" where
  "is_capital c = (65 \<le> code c \<and> code c \<le> 90)"

definition marker_core :: "string \<Rightarrow> bool" where
  "marker_core s =
     ((\<exists>n. 0 < n \<and> n < length s \<and> (\<forall>i<n. is_roman (s ! i)) \<and> s ! n = CHR ''.'') \<or>
      (1 < length s \<and> is_capital (s ! 0) \<and> s ! 1 = CHR ''.''))"

definition marker_at :: "string \<Rightarrow> bool" where
  "marker_at s =
     (\<exists>k. k \<le> 2 \<and> k \<le> length s \<and> (\<forall>i<k. isspace (s ! i)) \<and> marker_core (drop k s))"

fun first_suffix :: "(string \<Rightarrow> bool) \<Rightarrow> string \<Rightarrow> nat option" where
  "first_suffix P [] = (if P [] then Some 0 else None)"
| "first_suffix P (x # xs) = (if P (x # xs) then Some 0 else map_option Suc (first_suffix P xs))"

text \<open>
  The look-ahead of a section marker in the words of the specification: blank fragments are
  skipped and single-capital-letter fragments are absorbed (\<open>absorbed\<close>); the title parts
  are the absorbed letters, their dots removed, and the first fragment that is not absorbed;
  \<open>composed_title\<close> puts the numeral before them.
\<close>

definition is_blank :: "block \<Rightarrow> bool" where
  "is_blank b = (strip (text_b b) = [])"

definition is_sub_marker :: "block \<Rightarrow> bool" where
  "is_sub_marker b = (re_match False sub_marker_pattern (strip (text_b b)) \<noteq> None)"

definition absorbed :: "block \<Rightarrow> bool" where
  "absorbed b = (is_blank b \<or> is_sub_marker b)"

definition title_parts_of :: "block list \<Rightarrow> string list" where
  "title_parts_of rest =
     map (\<lambda>b. rstrip_dot (strip (text_b b))) (filter (\<lambda>b. \<not> is_blank b) (takeWhile absorbed rest)) @
     map (\<lambda>b. strip (text_b b)) (take 1 (dropWhile absorbed rest))"

definition composed_title :: "string \<Rightarrow> string list \<Rightarrow> string" where
  "composed_title roman parts =
     (if parts = [] then roman else roman @ ''. '' @ join '' '' parts)"

text \<open>
  The markers matched during the pass of the segmenter, in the order of the pass; the
  fragments consumed by the look-ahead of a section marker are not matched. \<open>numbers_of\<close>
  lists the article numbers of a list of sections in output order, and \<open>state_numbers\<close> those
  a segmenter state will still output.
\<close>

datatype marker = SectionMarker | ArticleMarker string

function pass_markers :: "block list \<Rightarrow> marker list" where
  "pass_markers [] = []"
| "pass_markers (b # rest) =
     (let t = strip (text_b b) in
      if t = [] then pass_markers rest
      else if re_match False section_numeral_pattern t \<noteq> None
        then SectionMarker # pass_markers (snd (look_ahead rest []))
      else (case match_article article_patterns t of
              Some (num, title_text) \<Rightarrow> ArticleMarker num # pass_markers rest
            | None \<Rightarrow> pass_markers rest))"
  by pat_completeness auto
termination
  by (relation "measure length") (auto simp: look_ahead_length less_Suc_eq_le)

fun article_markers :: "marker list \<Rightarrow> string list" where
  "article_markers [] = []"
| "article_markers (SectionMarker # mks) = article_markers mks"
| "article_markers (ArticleMarker n # mks) = n # article_markers mks"

fun after_first_section :: "marker list \<Rightarrow> marker list" where
  "after_first_section [] = []"
| "after_first_section (SectionMarker # mks) = mks"
| "after_first_section (ArticleMarker n # mks) = after_first_section mks"

definition numbers_of :: "sect list \<Rightarrow> string list" where
  "numbers_of secs = map article_number (concat (map articles secs))"

definition state_numbers :: "seg_state \<Rightarrow> string list" where
  "state_numbers st =
     numbers_of (sections st) @
     (case current_section st of
        None \<Rightarrow> []
      | Some sec \<Rightarrow> map article_number (articles sec) @
          (case current_article st of None \<Rightarrow> [] | Some a \<Rightarrow> [article_number a]))"

definition kept_markers :: "seg_state \<Rightarrow> marker list \<Rightarrow> string list" where
  "kept_markers st mks =
     (case current_section st of
        None \<Rightarrow> article_markers (after_first_section mks)
      | Some sec \<Rightarrow> article_markers mks)"

section \<open>Example fragments\<close>

text \<open>A fragment with the given text and left edge, used in the examples below.\<close>

definition frag :: "string \<Rightarrow> real \<Rightarrow> block" where
  "frag t x = \<lparr>text_b = t, bbox = (x, 0, x, 0), page = 0, font = [], size_b = 0, flags = 0\<rparr>"

(*DEFS-END*)

section \<open>Properties of the column separator estimator\<close>

lemmas frag_eval = find_column_separator_def x_positions_def frag_def bbox0_def strip_def
  lstrip_def rstrip_def isspace_def code_def

lemma gaps_of_empty_iff:
  "gaps_of xs = [] \<longleftrightarrow> (\<forall>i. Suc i < length xs \<longrightarrow> xs ! Suc i - xs ! i \<le> 20)"
proof (induction xs rule: gaps_of.induct)
  case (1 a b xs)
  show ?case
  proof (cases "b - a > 20")
    case True
    then have "\<not> (\<forall>i. Suc i < length (a # b # xs) \<longrightarrow> (a # b # xs) ! Suc i - (a # b # xs) ! i \<le> 20)"
      by (auto intro!: exI[of _ 0])
    with True show ?thesis by simp
  next
    case False
    have "(\<forall>i. Suc i < length (a # b # xs) \<longrightarrow> (a # b # xs) ! Suc i - (a # b # xs) ! i \<le> 20)
      \<longleftrightarrow> (\<forall>i. Suc i < length (b # xs) \<longrightarrow> (b # xs) ! Suc i - (b # xs) ! i \<le> 20)"
      (is "?L \<longleftrightarrow> ?R")
    proof
      assume l: ?L
      show ?R
      proof (intro allI impI)
        fix i assume "Suc i < length (b # xs)"
        with l[rule_format, of "Suc i"] show "(b # xs) ! Suc i - (b # xs) ! i \<le> 20" by simp
      qed
    next
      assume r: ?R
      show ?L
      proof (intro allI impI)
        fix i assume i: "Suc i < length (a # b # xs)"
        show "(a # b # xs) ! Suc i - (a # b # xs) ! i \<le> 20"
        proof (cases i)
          case 0
          with False show ?thesis by simp
        next
          case (Suc j)
          with i r[rule_format, of j] show ?thesis by simp
        qed
      qed
    qed
    with False 1 show ?thesis by simp
  qed
qed simp_all

lemma x_positions_perm: "mset bs = mset bs' \<Longrightarrow> mset (x_positions bs) = mset (x_positions bs')"
  unfolding x_positions_def
  by (metis mset_filter mset_map)

lemma sort_x_positions_perm:
  "mset bs = mset bs' \<Longrightarrow> sort (x_positions bs) = sort (x_positions bs')"
  by (metis x_positions_perm properties_for_sort sorted_sort mset_sort)

lemma perm_empty: "mset bs = mset bs' \<Longrightarrow> (bs = []) = (bs' = [])"
  by (metis mset_zero_iff)

text \<open>
  Claim C5. \<open>find_column_separator\<close> gives the same value on every permutation of a fragment
  list, and gives 0 when the list is empty or no fragment has non-empty trimmed text.
\<close>

theorem find_column_separator_perm_blank:
  "(mset bs = mset bs' \<longrightarrow> find_column_separator bs = find_column_separator bs') \<and>
   ((\<forall>b \<in> set bs. strip (text_b b) = []) \<longrightarrow> find_column_separator bs = 0)"
proof (intro conjI impI)
  assume p: "mset bs = mset bs'"
  have e: "(bs = []) = (bs' = [])" using p by (rule perm_empty)
  have x: "(x_positions bs = []) = (x_positions bs' = [])"
    using x_positions_perm[OF p] by (metis mset_zero_iff)
  have s: "sort (x_positions bs) = sort (x_positions bs')"
    using p by (rule sort_x_positions_perm)
  have l: "length (x_positions bs) = length (x_positions bs')"
    using x_positions_perm[OF p] by (metis size_mset)
  show "find_column_separator bs = find_column_separator bs'"
    unfolding find_column_separator_def Let_def e x s l by (rule refl)
next
  assume "\<forall>b \<in> set bs. strip (text_b b) = []"
  then have "x_positions bs = []"
    by (simp add: x_positions_def)
  then show "find_column_separator bs = 0"
    by (simp add: find_column_separator_def)
qed

theorem find_column_separator_perm_blank_witness:
  "find_column_separator [frag ''a'' 50, frag ''b'' 10, frag ''c'' 100]
     = find_column_separator [frag ''c'' 100, frag ''a'' 50, frag ''b'' 10] \<and>
   find_column_separator [frag ''a'' 50, frag ''b'' 10, frag ''c'' 100] = 75 \<and>
   find_column_separator [frag ''  '' 7] = 0"
proof -
  have p: "mset [frag ''a'' 50, frag ''b'' 10, frag ''c'' 100]
      = mset [frag ''c'' 100, frag ''a'' 50, frag ''b'' 10]"
    by (simp add: add_mset_commute)
  have b: "\<forall>b \<in> set [frag ''  '' 7]. strip (text_b b) = []"
    by (simp add: frag_def strip_def lstrip_def rstrip_def isspace_def code_def)
  have v: "find_column_separator [frag ''a'' 50, frag ''b'' 10, frag ''c'' 100] = 75"
    by (simp add: frag_eval)
  from find_column_separator_perm_blank[of "[frag ''a'' 50, frag ''b'' 10, frag ''c'' 100]"
      "[frag ''c'' 100, frag ''a'' 50, frag ''b'' 10]"] p
    find_column_separator_perm_blank[of "[frag ''  '' 7]" "[]"] b v
  show ?thesis by blast
qed

text \<open>
  Claim C6. When at least one fragment has non-empty trimmed text and no two consecutive
  sorted left edges differ by more than 20, \<open>find_column_separator\<close> returns the median of the
  sorted left edges: the element at index \<open>n div 2\<close> of the \<open>n\<close> sorted positions.
\<close>

theorem find_column_separator_median:
  assumes "x_positions bs \<noteq> []"
    and "\<forall>i. Suc i < length (x_positions bs) \<longrightarrow>
           sort (x_positions bs) ! Suc i - sort (x_positions bs) ! i \<le> 20"
  shows "find_column_separator bs = sort (x_positions bs) ! (length (x_positions bs) div 2)"
proof -
  have ne: "bs \<noteq> []" using assms(1) by (auto simp: x_positions_def)
  have "gaps_of (sort (x_positions bs)) = []"
    using assms(2) by (simp add: gaps_of_empty_iff)
  then show ?thesis
    using ne assms(1) by (simp add: find_column_separator_def Let_def sorted_sort_id)
qed

theorem find_column_separator_median_witness:
  "find_column_separator [frag ''a'' 30, frag ''b'' 10, frag '' '' 500, frag ''c'' 25, frag ''d'' 45] = 30"
proof -
  let ?bs = "[frag ''a'' 30, frag ''b'' 10, frag '' '' 500, frag ''c'' 25, frag ''d'' 45]"
  have x: "x_positions ?bs = [30, 10, 25, 45]"
    by (simp add: frag_eval)
  have s: "sort (x_positions ?bs) = [10, 25, 30, 45]"
    by (simp add: x)
  have g: "gaps_of (sort (x_positions ?bs)) = []"
    by (simp add: s)
  have h1: "x_positions ?bs \<noteq> []" by (simp add: x)
  have h2: "\<forall>i. Suc i < length (x_positions ?bs) \<longrightarrow>
           sort (x_positions ?bs) ! Suc i - sort (x_positions ?bs) ! i \<le> 20"
    using g gaps_of_empty_iff[of "sort (x_positions ?bs)"] by simp
  from find_column_separator_median[OF h1 h2] show ?thesis
    by (simp add: s x)
qed

section \<open>Frame of the text normalizer\<close>

lemma clean_article_frame:
  "clean_article a = a\<lparr>article_title := article_title (clean_article a),
      article_content := article_content (clean_article a)\<rparr>"
  by (simp add: clean_article_def Let_def)

lemma clean_section_frame:
  "clean_section s = s\<lparr>section_title := section_title (clean_section s),
      articles := articles (clean_section s)\<rparr>"
  by (simp add: clean_section_def)

lemma clean_article_number: "article_number (clean_article a) = article_number a"
  by (simp add: clean_article_def Let_def)

lemma clean_section_articles: "articles (clean_section s) = map clean_article (articles s)"
  by (simp add: clean_section_def)

text \<open>
  Claim C10. \<open>clean_section_article_text\<close> keeps the number and order of the sections, the
  number and order of the articles of each section and every \<open>article_number\<close>; an output
  section differs from the input section at the same position in \<open>section_title\<close> and
  \<open>articles\<close> only, and an output article from the input article at the same position in
  \<open>article_title\<close> and \<open>article_content\<close> only.
\<close>

theorem clean_section_article_text_frame:
  "length (clean_section_article_text secs) = length secs \<and>
   map (\<lambda>s. map article_number (articles s)) (clean_section_article_text secs)
     = map (\<lambda>s. map article_number (articles s)) secs \<and>
   list_all2 (\<lambda>s s'.
       s' = s\<lparr>section_title := section_title s', articles := articles s'\<rparr> \<and>
       list_all2 (\<lambda>a a'. a' = a\<lparr>article_title := article_title a',
                                   article_content := article_content a'\<rparr>)
         (articles s) (articles s'))
     secs (clean_section_article_text secs)"
proof (intro conjI)
  show "length (clean_section_article_text secs) = length secs"
    by (simp add: clean_section_article_text_def)
  show "map (\<lambda>s. map article_number (articles s)) (clean_section_article_text secs)
     = map (\<lambda>s. map article_number (articles s)) secs"
    by (simp add: clean_section_article_text_def clean_section_articles clean_article_number comp_def)
  have arts: "list_all2 (\<lambda>a a'. a' = a\<lparr>article_title := article_title a',
                                   article_content := article_content a'\<rparr>)
         as (map clean_article as)" for as
    by (induction as) (simp_all add: clean_article_frame[symmetric])
  show "list_all2 (\<lambda>s s'.
       s' = s\<lparr>section_title := section_title s', articles := articles s'\<rparr> \<and>
       list_all2 (\<lambda>a a'. a' = a\<lparr>article_title := article_title a',
                                   article_content := article_content a'\<rparr>)
         (articles s) (articles s'))
     secs (clean_section_article_text secs)"
    unfolding clean_section_article_text_def
  proof (induction secs)
    case Nil
    show ?case by simp
  next
    case (Cons s secs)
    have "clean_section s = s\<lparr>section_title := section_title (clean_section s),
        articles := articles (clean_section s)\<rparr>"
      by (rule clean_section_frame)
    moreover have "list_all2 (\<lambda>a a'. a' = a\<lparr>article_title := article_title a',
                                   article_content := article_content a'\<rparr>)
         (articles s) (articles (clean_section s))"
      using arts[of "articles s"] by (simp add: clean_section_articles)
    ultimately show ?case using Cons.IH by simp
  qed
qed

section \<open>Batch annotation\<close>

text \<open>
  Claim C1. The claim asks for exactly \<open>n\<close> annotation objects for \<open>n\<close> requested articles.
  When the collaborator answers a request for two articles with the single JSON object
  \<open>{}\<close>, line 85 wraps it into a list of one element.
\<close>

theorem analyze_articles_batch_single_object:
  "analyze_articles_batch_with_mistral (\<lambda>s. if s = ''{}'' then Some (JDict []) else None)
     (\<lambda>texts. ApiContent ''{}'') [''a'', ''b''] = [JDict []]"
  by code_simp

section \<open>Parsing without enrichment\<close>

lemma plain_init: "plain_state init_state"
  by (simp add: plain_state_def init_state_def)

lemma plain_flush: "plain_state st \<Longrightarrow> plain_state (flush_article st)"
  by (auto simp: plain_state_def flush_article_def Let_def plain_def split: option.splits)

lemma plain_open_section: "plain_state st \<Longrightarrow> plain_state (open_section st t)"
proof -
  assume p: "plain_state st"
  have f: "plain_state (flush_article st)" using p by (rule plain_flush)
  show ?thesis
  proof (cases "current_article st")
    case None
    with p show ?thesis
      by (auto simp: open_section_def plain_state_def Let_def split: option.splits)
  next
    case (Some a)
    with f show ?thesis
      by (auto simp: open_section_def plain_state_def Let_def split: option.splits)
  qed
qed

lemma plain_open_article: "plain_state st \<Longrightarrow> plain_state (open_article st n t)"
  using plain_flush[of st]
  by (auto simp: open_article_def plain_state_def plain_def)

lemma plain_step: "plain_state st \<Longrightarrow> plain_state (fst (seg_step sep st b rest))"
  by (auto simp: seg_step_def Let_def plain_open_section plain_open_article
      split: prod.splits option.splits)
    (auto simp: plain_state_def)

lemma plain_loop: "plain_state st \<Longrightarrow> plain_state (seg_loop sep st bs)"
proof (induction sep st bs rule: seg_loop.induct)
  case (1 sep st)
  then show ?case by simp
next
  case (2 sep st b rest)
  obtain st' rest' where s: "seg_step sep st b rest = (st', rest')"
    by (cases "seg_step sep st b rest")
  have "plain_state st'" using plain_step[OF "2.prems", of sep b rest] s by simp
  then have "plain_state (seg_loop sep st' rest')"
    by (rule "2.IH"[OF s[symmetric]])
  then show ?case using s by simp
qed

lemma plain_split:
  "s \<in> set (split_into_sections_and_articles_with_layout blocks) \<Longrightarrow> a \<in> set (articles s)
     \<Longrightarrow> plain a"
proof -
  let ?st = "flush_article (seg_loop (find_column_separator blocks) init_state blocks)"
  assume s: "s \<in> set (split_into_sections_and_articles_with_layout blocks)" and a: "a \<in> set (articles s)"
  have p: "plain_state ?st"
    by (intro plain_flush plain_loop plain_init)
  from s have "s \<in> set (sections ?st) \<or> current_section ?st = Some s"
    by (auto simp: split_into_sections_and_articles_with_layout_def Let_def split: option.splits)
  with p a show ?thesis by (auto simp: plain_state_def)
qed

lemma plain_clean: "plain a \<Longrightarrow> plain (clean_article a)"
  by (simp add: plain_def clean_article_def Let_def)

lemma plain_cleaned_split:
  assumes "s \<in> set (clean_section_article_text (split_into_sections_and_articles_with_layout blocks))"
    and "a \<in> set (articles s)"
  shows "plain a"
proof -
  from assms(1) obtain s0 where s0: "s0 \<in> set (split_into_sections_and_articles_with_layout blocks)"
    and s: "s = clean_section s0"
    by (auto simp: clean_section_article_text_def)
  from assms(2) s obtain a0 where a0: "a0 \<in> set (articles s0)" and a: "a = clean_article a0"
    by (auto simp: clean_section_def)
  from plain_split[OF s0 a0] a show ?thesis by (simp add: plain_clean)
qed

text \<open>
  Claim C7. With \<open>enhance\<close> false, \<open>parse_pdf\<close> makes no call to the annotation collaborator
  and returns a document without \<open>document_summary\<close>, \<open>document_intention\<close> and
  \<open>document_keywords\<close>, whose title is the title of the metadata extractor, whose sections are
  the cleaned output of the segmenter, and none of whose articles has a summary, an intention
  or keywords.
\<close>

theorem parse_pdf_without_enrichment:
  "\<exists>doc. parse_pdf c blocks False = ([], Inr doc) \<and>
     document_summary doc = None \<and> document_intention doc = None \<and>
     document_keywords doc = None \<and>
     document_title doc = JStr (title (extract_metadata_from_blocks blocks)) \<and>
     result_sections doc =
       clean_section_article_text (split_into_sections_and_articles_with_layout blocks) \<and>
     (\<forall>s \<in> set (result_sections doc). \<forall>a \<in> set (articles s).
        article_summary a = None \<and> article_intention a = None \<and> article_keywords a = None)"
proof -
  let ?doc = "\<lparr>document_title = JStr (title (extract_metadata_from_blocks blocks)),
     document_date = date (extract_metadata_from_blocks blocks),
     document_summary = None, document_intention = None, document_keywords = None,
     result_sections =
       clean_section_article_text (split_into_sections_and_articles_with_layout blocks)\<rparr>"
  have "parse_pdf c blocks False = ([], Inr ?doc)"
    by (simp add: parse_pdf_def Let_def)
  moreover have "\<forall>s \<in> set (result_sections ?doc). \<forall>a \<in> set (articles s).
        article_summary a = None \<and> article_intention a = None \<and> article_keywords a = None"
    using plain_cleaned_split[of _ blocks] by (auto simp: plain_def)
  ultimately show ?thesis by (intro exI[of _ ?doc]) simp
qed

theorem parse_pdf_without_enrichment_witness:
  "\<exists>doc s a. parse_pdf \<lparr>loads = (\<lambda>s. None), post_document = (\<lambda>t. ApiError ''down''),
         post_batch = (\<lambda>ts. ApiError ''down'')\<rparr>
       [frag ''I'' 10, frag ''t'' 10, frag ''Art. 1'' 10, frag ''x'' 100] False = ([], Inr doc) \<and>
     s \<in> set (result_sections doc) \<and> a \<in> set (articles s) \<and> article_number a = ''1'' \<and>
     article_summary a = None \<and> article_intention a = None \<and> article_keywords a = None"
proof -
  let ?c = "\<lparr>loads = (\<lambda>s. None), post_document = (\<lambda>t. ApiError ''down''),
         post_batch = (\<lambda>ts. ApiError ''down'')\<rparr>"
  let ?bs = "[frag ''I'' 10, frag ''t'' 10, frag ''Art. 1'' 10, frag ''x'' 100]"
  let ?a = "\<lparr>article_number = ''1'', article_title = [], article_content = ''x'',
          article_summary = None, article_intention = None, article_keywords = None\<rparr>"
  let ?s = "\<lparr>section_title = ''I. t'', articles = [?a]\<rparr>"
  have ev: "clean_section_article_text (split_into_sections_and_articles_with_layout ?bs) = [?s]"
    by code_simp
  from parse_pdf_without_enrichment[of ?c ?bs] obtain doc where
    d: "parse_pdf ?c ?bs False = ([], Inr doc)" and
    r: "result_sections doc =
       clean_section_article_text (split_into_sections_and_articles_with_layout ?bs)" and
    q: "\<forall>s \<in> set (result_sections doc). \<forall>a \<in> set (articles s).
        article_summary a = None \<and> article_intention a = None \<and> article_keywords a = None"
    by blast
  have m1: "?s \<in> set (result_sections doc)" by (simp only: r ev list.set_intros)
  have m2: "?a \<in> set (articles ?s)" by simp
  from q m1 m2 have "article_summary ?a = None \<and> article_intention ?a = None \<and> article_keywords ?a = None"
    by blast
  moreover have "article_number ?a = ''1''" by simp
  ultimately show ?thesis using d m1 m2 by blast
qed

section \<open>Truncation of article titles at the first sub-section marker\<close>

lemma le_takeWhile_iff:
  "j \<le> length (takeWhile P xs) \<longleftrightarrow> (j \<le> length xs \<and> (\<forall>i<j. P (xs ! i)))"
proof (induction xs arbitrary: j)
  case Nil
  show ?case by auto
next
  case (Cons x xs)
  show ?case
  proof (cases j)
    case 0
    then show ?thesis by simp
  next
    case (Suc k)
    show ?thesis
    proof (cases "P x")
      case True
      have "(\<forall>i<Suc k. P ((x # xs) ! i)) \<longleftrightarrow> (\<forall>i<k. P (xs ! i))"
        using True by (auto simp: less_Suc_eq_0_disj)
      with True Suc Cons.IH[of k] show ?thesis by simp
    next
      case False
      then have "\<not> (\<forall>i<Suc k. P ((x # xs) ! i))" by (auto intro: exI[of _ 0])
      with False Suc show ?thesis by simp
    qed
  qed
qed

lemma ms_Seq_nonempty:
  "ms ic (Seq r1 r2) st \<noteq> [] \<longleftrightarrow> (\<exists>st' \<in> set (ms ic r1 st). ms ic r2 st' \<noteq> [])"
  by auto

lemma ms_Rep_set:
  "set (ms ic (Rep m n a) (pv, s, cs)) =
     (\<lambda>j. (prev_after pv s j, drop j s, cs)) `
       {j. m \<le> j \<and> j \<le> length (takeWhile (atom_ok ic a) (case n of None \<Rightarrow> s | Some n' \<Rightarrow> take n' s))}"
  by (auto simp: Let_def)

lemma ms_Lit_nonempty:
  "ms False (Atom (Lit d)) (pv, s, cs) \<noteq> [] \<longleftrightarrow> (0 < length s \<and> s ! 0 = d)"
  by (cases s) (auto simp: atom_ok_def)

lemma roman_ok: "atom_ok False (Cls [Chr CHR ''I'', Chr CHR ''V'', Chr CHR ''X'']) c = is_roman c"
  by (auto simp: atom_ok_def is_roman_def)

lemma capital_ok: "atom_ok False (Cls [Range CHR ''A'' CHR ''Z'']) c = is_capital c"
  by (simp add: atom_ok_def is_capital_def code_def)

lemma space_ok: "atom_ok False (Cls [Space]) c = isspace c"
  by (simp add: atom_ok_def)

lemma roman_dot_nonempty:
  "ms False (Seq (Rep 1 None (Cls [Chr CHR ''I'', Chr CHR ''V'', Chr CHR ''X''])) (Atom (Lit CHR ''.'')))
      (pv, s, cs) \<noteq> []
   \<longleftrightarrow> (\<exists>n. 0 < n \<and> n < length s \<and> (\<forall>i<n. is_roman (s ! i)) \<and> s ! n = CHR ''.'')"
proof -
  have "ms False (Seq (Rep 1 None (Cls [Chr CHR ''I'', Chr CHR ''V'', Chr CHR ''X''])) (Atom (Lit CHR ''.'')))
      (pv, s, cs) \<noteq> []
    \<longleftrightarrow> (\<exists>j. 1 \<le> j \<and> j \<le> length s \<and> (\<forall>i<j. is_roman (s ! i)) \<and> j < length s \<and> s ! j = CHR ''.'')"
    unfolding ms_Seq_nonempty ms_Rep_set
    by (auto simp: ms_Lit_nonempty roman_ok[abs_def] le_takeWhile_iff simp del: ms.simps)
  also have "\<dots> \<longleftrightarrow> (\<exists>n. 0 < n \<and> n < length s \<and> (\<forall>i<n. is_roman (s ! i)) \<and> s ! n = CHR ''.'')"
    by (metis One_nat_def Suc_le_eq less_imp_le_nat)
  finally show ?thesis .
qed

lemma capital_dot_nonempty:
  "ms False (Seq (Atom (Cls [Range CHR ''A'' CHR ''Z''])) (Atom (Lit CHR ''.''))) (pv, s, cs) \<noteq> []
   \<longleftrightarrow> (1 < length s \<and> is_capital (s ! 0) \<and> s ! 1 = CHR ''.'')"
proof (cases s)
  case Nil
  then show ?thesis by simp
next
  case (Cons x xs)
  then show ?thesis
    by (cases xs) (auto simp: capital_ok atom_ok_def[of False "Lit _"])
qed

lemma ms_Grp_nonempty: "ms ic (Grp g r) (pv, s, cs) \<noteq> [] \<longleftrightarrow> ms ic r (pv, s, cs) \<noteq> []"
  by (simp only: ms.simps(6) map_is_Nil_conv)

lemma ms_Seq_total:
  assumes "\<And>st'. ms ic r2 st' \<noteq> []"
  shows "ms ic (Seq r1 r2) st \<noteq> [] \<longleftrightarrow> ms ic r1 st \<noteq> []"
proof
  assume "ms ic (Seq r1 r2) st \<noteq> []"
  then obtain st' where "st' \<in> set (ms ic r1 st)" unfolding ms_Seq_nonempty by blast
  then show "ms ic r1 st \<noteq> []" by (cases "ms ic r1 st") simp_all
next
  assume "ms ic r1 st \<noteq> []"
  then obtain x xs where "ms ic r1 st = x # xs" by (cases "ms ic r1 st") simp_all
  then have "x \<in> set (ms ic r1 st)" by simp
  with assms[of x] show "ms ic (Seq r1 r2) st \<noteq> []" unfolding ms_Seq_nonempty by blast
qed

lemma spaces0_nonempty: "ms False spaces0 st \<noteq> []"
proof -
  obtain pv s cs where st: "st = (pv, s, cs)" by (cases st)
  show ?thesis unfolding st spaces0_def by (simp add: Let_def)
qed

lemma spaces0_tail_nonempty: "ms False (Seq spaces0 Eps) st \<noteq> []"
proof -
  have "\<And>st'. ms False Eps st' \<noteq> []" by (simp only: ms.simps(4) not_Cons_self2 simp_thms)
  then have "ms False (Seq spaces0 Eps) st \<noteq> [] \<longleftrightarrow> ms False spaces0 st \<noteq> []"
    by (rule ms_Seq_total)
  then show ?thesis using spaces0_nonempty by blast
qed

lemma marker_alt_nonempty:
  "ms False
     (Seq (Alt (Seq (Rep 1 None (Cls [Chr CHR ''I'', Chr CHR ''V'', Chr CHR ''X''])) (Atom (Lit CHR ''.'')))
               (Seq (Atom (Cls [Range CHR ''A'' CHR ''Z''])) (Atom (Lit CHR ''.''))))
          (Seq spaces0 Eps)) (pv, s, cs) \<noteq> []
   \<longleftrightarrow> marker_core s"
proof -
  let ?R = "Seq (Rep 1 None (Cls [Chr CHR ''I'', Chr CHR ''V'', Chr CHR ''X''])) (Atom (Lit CHR ''.''))"
  let ?C = "Seq (Atom (Cls [Range CHR ''A'' CHR ''Z''])) (Atom (Lit CHR ''.''))"
  have "ms False (Seq (Alt ?R ?C) (Seq spaces0 Eps)) (pv, s, cs) \<noteq> []
      \<longleftrightarrow> ms False (Alt ?R ?C) (pv, s, cs) \<noteq> []"
    by (rule ms_Seq_total) (rule spaces0_tail_nonempty)
  also have "\<dots> \<longleftrightarrow> (ms False ?R (pv, s, cs) \<noteq> [] \<or> ms False ?C (pv, s, cs) \<noteq> [])"
    by (simp only: ms.simps(3) append_is_Nil_conv de_Morgan_conj)
  also have "\<dots> \<longleftrightarrow> marker_core s"
    by (simp only: roman_dot_nonempty capital_dot_nonempty marker_core_def)
  finally show ?thesis .
qed

lemma rep_space2_set:
  "set (ms False (Rep 0 (Some 2) (Cls [Space])) (pv, s, cs)) =
     (\<lambda>j. (prev_after pv s j, drop j s, cs)) ` {j. j \<le> length (takeWhile isspace (take 2 s))}"
  unfolding ms_Rep_set by (simp add: space_ok[abs_def])

lemma marker_pattern_nonempty:
  "ms False section_marker_pattern (pv, s, cs) \<noteq> [] \<longleftrightarrow> marker_at s"
proof -
  let ?B = "Seq (Alt (Seq (Rep 1 None (Cls [Chr CHR ''I'', Chr CHR ''V'', Chr CHR ''X''])) (Atom (Lit CHR ''.'')))
               (Seq (Atom (Cls [Range CHR ''A'' CHR ''Z''])) (Atom (Lit CHR ''.''))))
          (Seq spaces0 Eps)"
  have p: "section_marker_pattern = Grp 1 (Seq (Rep 0 (Some 2) (Cls [Space])) ?B)"
    by (simp add: section_marker_pattern_def seqs_def)
  have "ms False section_marker_pattern (pv, s, cs) \<noteq> []
      \<longleftrightarrow> ms False (Seq (Rep 0 (Some 2) (Cls [Space])) ?B) (pv, s, cs) \<noteq> []"
    unfolding p by (rule ms_Grp_nonempty)
  also have "\<dots> \<longleftrightarrow> (\<exists>st' \<in> set (ms False (Rep 0 (Some 2) (Cls [Space])) (pv, s, cs)).
        ms False ?B st' \<noteq> [])"
    by (rule ms_Seq_nonempty)
  also have "\<dots> \<longleftrightarrow> (\<exists>j. j \<le> length (takeWhile isspace (take 2 s)) \<and>
        ms False ?B (prev_after pv s j, drop j s, cs) \<noteq> [])"
    unfolding rep_space2_set by blast
  also have "\<dots> \<longleftrightarrow> (\<exists>j. j \<le> length (takeWhile isspace (take 2 s)) \<and> marker_core (drop j s))"
    by (simp only: marker_alt_nonempty)
  also have "\<dots> \<longleftrightarrow> (\<exists>j. (j \<le> length (take 2 s) \<and> (\<forall>i<j. isspace (take 2 s ! i))) \<and> marker_core (drop j s))"
    by (simp only: le_takeWhile_iff)
  also have "\<dots> \<longleftrightarrow> marker_at s"
    unfolding marker_at_def
  proof (intro iff_exI)
    fix k
    have "(k \<le> length (take 2 s) \<and> (\<forall>i<k. isspace (take 2 s ! i)))
        \<longleftrightarrow> (k \<le> 2 \<and> k \<le> length s \<and> (\<forall>i<k. isspace (s ! i)))"
      by (cases "k \<le> 2") auto
    then show "((k \<le> length (take 2 s) \<and> (\<forall>i<k. isspace (take 2 s ! i))) \<and> marker_core (drop k s))
        \<longleftrightarrow> (k \<le> 2 \<and> k \<le> length s \<and> (\<forall>i<k. isspace (s ! i)) \<and> marker_core (drop k s))"
      by blast
  qed
  finally show ?thesis .
qed

lemma first_suffix_Some:
  "first_suffix P s = Some p \<longleftrightarrow> (p \<le> length s \<and> P (drop p s) \<and> (\<forall>q<p. \<not> P (drop q s)))"
proof (induction s arbitrary: p)
  case Nil
  show ?case by auto
next
  case (Cons x xs)
  show ?case
  proof (cases "P (x # xs)")
    case True
    then show ?thesis by (cases p) auto
  next
    case False
    show ?thesis
    proof (cases p)
      case 0
      with False show ?thesis by simp
    next
      case (Suc k)
      have "(\<forall>q<Suc k. \<not> P (drop q (x # xs))) \<longleftrightarrow> (\<forall>q<k. \<not> P (drop q xs))"
        using False by (auto simp: less_Suc_eq_0_disj)
      with False Suc Cons.IH[of k] show ?thesis by auto
    qed
  qed
qed

lemma first_suffix_None:
  "first_suffix P s = None \<longleftrightarrow> (\<forall>q\<le>length s. \<not> P (drop q s))"
proof (induction s)
  case Nil
  show ?case by simp
next
  case (Cons x xs)
  have "(\<forall>q\<le>length (x # xs). \<not> P (drop q (x # xs)))
      \<longleftrightarrow> (\<not> P (x # xs) \<and> (\<forall>q\<le>length xs. \<not> P (drop q xs)))"
  proof (intro iffI conjI allI impI)
    assume a: "\<forall>q\<le>length (x # xs). \<not> P (drop q (x # xs))"
    from a[rule_format, of 0] show "\<not> P (x # xs)" by simp
    fix q assume "q \<le> length xs"
    with a[rule_format, of "Suc q"] show "\<not> P (drop q xs)" by simp
  next
    fix q assume a: "\<not> P (x # xs) \<and> (\<forall>q\<le>length xs. \<not> P (drop q xs))" and q: "q \<le> length (x # xs)"
    show "\<not> P (drop q (x # xs))"
    proof (cases q)
      case 0
      with a show ?thesis by simp
    next
      case (Suc k)
      with a q show ?thesis by simp
    qed
  qed
  with Cons.IH show ?case by auto
qed

lemma search_from_start:
  assumes "\<And>pv s. (ms ic r (pv, s, []) \<noteq> []) = P s"
  shows "map_option m_start (search_from ic r pos pv s) = map_option (\<lambda>p. pos + p) (first_suffix P s)"
proof (induction s arbitrary: pos pv)
  case Nil
  show ?case
    using assms[of pv "[]"] by (cases "ms ic r (pv, [], [])") (auto split: prod.splits)
next
  case (Cons x xs)
  show ?case
  proof (cases "ms ic r (pv, x # xs, [])")
    case Nil
    then have "\<not> P (x # xs)" using assms[of pv "x # xs"] by simp
    then show ?thesis
      using Nil Cons.IH[of "Suc pos" "Some x"] by (simp add: option.map_comp comp_def)
  next
    case (Cons m msl)
    then have "P (x # xs)" using assms[of pv "x # xs"] by simp
    then show ?thesis
      using Cons by (auto split: prod.splits)
  qed
qed

lemma search_marker:
  "map_option m_start (re_search False section_marker_pattern t) = first_suffix marker_at t"
  unfolding re_search_def
  using search_from_start[of False section_marker_pattern marker_at 0 None t]
  by (simp add: marker_pattern_nonempty option.map_ident)

lemma remove_at_first_marker:
  assumes "first_suffix marker_at t = Some p"
  shows "remove_section_titles_from_title t = collapse_ws (strip (take p t))"
proof (cases "re_search False section_marker_pattern t")
  case None
  with search_marker[of t] assms show ?thesis by simp
next
  case (Some mt)
  with search_marker[of t] assms have "m_start mt = p" by simp
  with Some show ?thesis by (simp add: remove_section_titles_from_title_def)
qed

lemma remove_without_marker:
  assumes "first_suffix marker_at t = None"
  shows "remove_section_titles_from_title t = collapse_ws (strip t)"
proof (cases "re_search False section_marker_pattern t")
  case None
  then show ?thesis by (simp add: remove_section_titles_from_title_def)
next
  case (Some mt)
  with search_marker[of t] assms show ?thesis by simp
qed

lemma marker_at_code: "marker_at = (\<lambda>s. ms False section_marker_pattern (None, s, []) \<noteq> [])"
  by (rule ext) (rule marker_pattern_nonempty[symmetric])

text \<open>
  Claim C3, as stated: the title \<open>I. Allgemeine Bestimmungen A. Geltungsbereich\<close> is not
  truncated to \<open>I. Allgemeine Bestimmungen\<close>.
\<close>

theorem remove_section_titles_example_counterexample:
  "remove_section_titles_from_title ''I. Allgemeine Bestimmungen A. Geltungsbereich''
     \<noteq> ''I. Allgemeine Bestimmungen''"
  by code_simp

text \<open>
  Claim C3, amended. The title \<open>I. Allgemeine Bestimmungen A. Geltungsbereich\<close> starts with
  the marker \<open>I.\<close> and is truncated to the empty string. In general, when \<open>p\<close> is the first
  position of a title at which a sub-section marker occurs, the result is the title before
  \<open>p\<close>, trimmed and with every run of whitespace collapsed to one space; a title without a
  marker is only trimmed and collapsed.
\<close>

theorem remove_section_titles_first_marker:
  "remove_section_titles_from_title ''I. Allgemeine Bestimmungen A. Geltungsbereich'' = [] \<and>
   (p \<le> length t \<and> marker_at (drop p t) \<and> (\<forall>q<p. \<not> marker_at (drop q t)) \<longrightarrow>
      remove_section_titles_from_title t = collapse_ws (strip (take p t))) \<and>
   ((\<forall>q\<le>length t. \<not> marker_at (drop q t)) \<longrightarrow>
      remove_section_titles_from_title t = collapse_ws (strip t))"
proof (intro conjI impI)
  show "remove_section_titles_from_title ''I. Allgemeine Bestimmungen A. Geltungsbereich'' = []"
    by code_simp
next
  assume "p \<le> length t \<and> marker_at (drop p t) \<and> (\<forall>q<p. \<not> marker_at (drop q t))"
  then have "first_suffix marker_at t = Some p" by (rule first_suffix_Some[THEN iffD2])
  then show "remove_section_titles_from_title t = collapse_ws (strip (take p t))"
    by (rule remove_at_first_marker)
next
  assume "\<forall>q\<le>length t. \<not> marker_at (drop q t)"
  then have "first_suffix marker_at t = None" by (rule first_suffix_None[THEN iffD2])
  then show "remove_section_titles_from_title t = collapse_ws (strip t)"
    by (rule remove_without_marker)
qed

theorem remove_section_titles_first_marker_witness:
  "remove_section_titles_from_title ''Allgemeine Bestimmungen  A. Geltungsbereich''
     = ''Allgemeine Bestimmungen'' \<and>
   remove_section_titles_from_title ''Zweck und  Ziel'' = ''Zweck und Ziel''"
proof -
  let ?t = "''Allgemeine Bestimmungen  A. Geltungsbereich''"
  let ?u = "''Zweck und  Ziel''"
  have "first_suffix (\<lambda>s. ms False section_marker_pattern (None, s, []) \<noteq> []) ?t = Some 23"
    by code_simp
  then have "first_suffix marker_at ?t = Some 23" by (simp only: marker_at_code)
  then have h1: "23 \<le> length ?t \<and> marker_at (drop 23 ?t) \<and> (\<forall>q<23. \<not> marker_at (drop q ?t))"
    by (rule first_suffix_Some[THEN iffD1])
  have "first_suffix (\<lambda>s. ms False section_marker_pattern (None, s, []) \<noteq> []) ?u = None"
    by code_simp
  then have "first_suffix marker_at ?u = None" by (simp only: marker_at_code)
  then have h2: "\<forall>q\<le>length ?u. \<not> marker_at (drop q ?u)"
    by (rule first_suffix_None[THEN iffD1])
  have e1: "collapse_ws (strip (take 23 ?t)) = ''Allgemeine Bestimmungen''" by code_simp
  have e2: "collapse_ws (strip ?u) = ''Zweck und Ziel''" by code_simp
  have r1: "remove_section_titles_from_title ?t = collapse_ws (strip (take 23 ?t))"
    by (rule remove_section_titles_first_marker[of 23 ?t, THEN conjunct2, THEN conjunct1,
          THEN mp, OF h1])
  have r2: "remove_section_titles_from_title ?u = collapse_ws (strip ?u)"
    by (rule remove_section_titles_first_marker[of 0 ?u, THEN conjunct2, THEN conjunct2,
          THEN mp, OF h2])
  show ?thesis
    by (rule conjI) (simp_all only: r1 r2 e1 e2)
qed

section \<open>Look-ahead of a section marker\<close>

lemma look_ahead_spec:
  "look_ahead rest acc = (acc @ title_parts_of rest, drop 1 (dropWhile absorbed rest))"
proof (induction rest arbitrary: acc)
  case Nil
  show ?case by (simp add: title_parts_of_def)
next
  case (Cons b bs)
  show ?case
  proof (cases "is_blank b")
    case True
    then have a: "absorbed b" by (simp add: absorbed_def)
    from True have "look_ahead (b # bs) acc = look_ahead bs acc"
      by (simp add: is_blank_def)
    also have "\<dots> = (acc @ title_parts_of bs, drop 1 (dropWhile absorbed bs))"
      by (rule Cons.IH)
    also have "title_parts_of bs = title_parts_of (b # bs)"
      using a True by (simp add: title_parts_of_def)
    also have "dropWhile absorbed bs = dropWhile absorbed (b # bs)"
      using a by simp
    finally show ?thesis .
  next
    case False
    note nb = False
    show ?thesis
    proof (cases "is_sub_marker b")
      case True
      then have a: "absorbed b" by (simp add: absorbed_def)
      from True nb have "look_ahead (b # bs) acc = look_ahead bs (acc @ [rstrip_dot (strip (text_b b))])"
        by (simp add: is_blank_def is_sub_marker_def)
      also have "\<dots> = ((acc @ [rstrip_dot (strip (text_b b))]) @ title_parts_of bs,
          drop 1 (dropWhile absorbed bs))"
        by (rule Cons.IH)
      also have "(acc @ [rstrip_dot (strip (text_b b))]) @ title_parts_of bs
          = acc @ title_parts_of (b # bs)"
        using a nb by (simp add: title_parts_of_def)
      also have "dropWhile absorbed bs = dropWhile absorbed (b # bs)"
        using a by simp
      finally show ?thesis .
    next
      case False
      with nb have a: "\<not> absorbed b" by (simp add: absorbed_def)
      from False nb have "look_ahead (b # bs) acc = (acc @ [strip (text_b b)], bs)"
        by (simp add: is_blank_def is_sub_marker_def)
      moreover have "title_parts_of (b # bs) = [strip (text_b b)]"
        using a by (simp add: title_parts_of_def)
      moreover have "drop 1 (dropWhile absorbed (b # bs)) = bs"
        using a by simp
      ultimately show ?thesis by simp
    qed
  qed
qed

lemma current_section_open_section:
  "current_section (open_section st t) = Some \<lparr>section_title = strip t, articles = []\<rparr>"
  by (simp add: open_section_def Let_def)

text \<open>
  Claim C4, as stated: after the marker \<open>I.\<close>, the fragments \<open>A.\<close> and \<open>Zweck\<close> give the
  title \<open>I. A Zweck\<close>, not \<open>I. Zweck\<close>; the fragment \<open>A.\<close> alone gives \<open>I. A\<close>, not \<open>I\<close>.
\<close>

theorem seg_step_section_title_counterexample:
  "map_option section_title
     (current_section (fst (seg_step 0 init_state (frag ''I.'' 10) [frag ''A.'' 10, frag ''Zweck'' 10])))
     = Some ''I. A Zweck'' \<and>
   map_option section_title
     (current_section (fst (seg_step 0 init_state (frag ''I.'' 10) [frag ''A.'' 10, frag ''Zweck'' 10])))
     \<noteq> Some ''I. Zweck'' \<and>
   map_option section_title
     (current_section (fst (seg_step 0 init_state (frag ''I.'' 10) [frag ''A.'' 10])))
     = Some ''I. A''"
  by code_simp

text \<open>
  Claim C4, amended. When a section-marker fragment is matched, the title of the newly opened
  section is the numeral, followed, when a non-blank fragment follows, by a dot, a space and
  the title parts joined by single spaces: the single capital letters of the immediately
  following sub-marker fragments and then the next substantive fragment. The section has no
  article yet, and scanning resumes after the consumed fragments.
\<close>

theorem seg_step_section_marker:
  assumes "strip (text_b b) \<noteq> []"
    and "re_match False section_numeral_pattern (strip (text_b b)) \<noteq> None"
  shows "current_section (fst (seg_step sep st b rest)) =
           Some \<lparr>section_title =
                   strip (composed_title (rstrip_dot (strip (text_b b))) (title_parts_of rest)),
                 articles = []\<rparr> \<and>
         snd (seg_step sep st b rest) = drop 1 (dropWhile absorbed rest)"
proof -
  have la: "look_ahead rest [] = (title_parts_of rest, drop 1 (dropWhile absorbed rest))"
    using look_ahead_spec[of rest "[]"] by simp
  have "seg_step sep st b rest =
      (open_section st (composed_title (rstrip_dot (strip (text_b b))) (title_parts_of rest)),
       drop 1 (dropWhile absorbed rest))"
    using assms by (simp add: seg_step_def Let_def la composed_title_def)
  then show ?thesis by (simp add: current_section_open_section)
qed

theorem seg_step_section_marker_witness:
  "current_section (fst (seg_step 0 init_state (frag ''II.'' 10)
       [frag '' '' 10, frag ''A.'' 10, frag ''Zweck'' 10, frag ''Art. 1'' 10]))
     = Some \<lparr>section_title = ''II. A Zweck'', articles = []\<rparr> \<and>
   snd (seg_step 0 init_state (frag ''II.'' 10)
       [frag '' '' 10, frag ''A.'' 10, frag ''Zweck'' 10, frag ''Art. 1'' 10]) = [frag ''Art. 1'' 10] \<and>
   current_section (fst (seg_step 0 init_state (frag ''II.'' 10) []))
     = Some \<lparr>section_title = ''II'', articles = []\<rparr>"
proof -
  let ?b = "frag ''II.'' 10"
  let ?rest = "[frag '' '' 10, frag ''A.'' 10, frag ''Zweck'' 10, frag ''Art. 1'' 10]"
  have h1: "strip (text_b ?b) \<noteq> []" by code_simp
  have h2: "re_match False section_numeral_pattern (strip (text_b ?b)) \<noteq> None" by code_simp
  have t1: "strip (composed_title (rstrip_dot (strip (text_b ?b))) (title_parts_of ?rest)) = ''II. A Zweck''"
    by code_simp
  have t2: "strip (composed_title (rstrip_dot (strip (text_b ?b))) (title_parts_of [])) = ''II''"
    by code_simp
  have r1: "drop 1 (dropWhile absorbed ?rest) = [frag ''Art. 1'' 10]"
    by code_simp
  from seg_step_section_marker[OF h1 h2, of 0 init_state ?rest]
    seg_step_section_marker[OF h1 h2, of 0 init_state "[]"]
  show ?thesis by (simp only: t1 t2 r1 simp_thms)
qed

section \<open>Articles of the output and article markers of the pass\<close>

lemma numbers_of_append: "numbers_of (xs @ ys) = numbers_of xs @ numbers_of ys"
  by (simp add: numbers_of_def)

lemma numbers_of_single: "numbers_of [s] = map article_number (articles s)"
  by (simp add: numbers_of_def)

lemma state_numbers_flush:
  "numbers_of (sections (flush_article st)) @
     (case current_section (flush_article st) of
        None \<Rightarrow> []
      | Some sec \<Rightarrow> map article_number (articles sec))
   = state_numbers st"
  by (simp add: state_numbers_def flush_article_def Let_def split: option.splits)

lemma current_section_flush_None:
  "(current_section (flush_article st) = None) = (current_section st = None)"
  by (simp add: flush_article_def Let_def split: option.splits)

lemma state_numbers_open_section: "state_numbers (open_section st t) = state_numbers st"
proof (cases "current_article st")
  case None
  then show ?thesis
    by (simp add: state_numbers_def open_section_def Let_def numbers_of_append numbers_of_single
        split: option.splits)
next
  case (Some a)
  then show ?thesis
    by (simp add: state_numbers_def open_section_def flush_article_def Let_def numbers_of_append
        numbers_of_single split: option.splits)
qed

lemma state_numbers_open_article:
  "state_numbers (open_article st n t) =
     state_numbers st @ (if current_section st = None then [] else [n])"
  by (simp add: state_numbers_def open_article_def flush_article_def Let_def split: option.splits)

lemma current_section_open_article_None:
  "(current_section (open_article st n t) = None) = (current_section st = None)"
  by (simp add: open_article_def current_section_flush_None)

lemma kept_cong:
  "(current_section st' = None) = (current_section st = None) \<Longrightarrow> kept_markers st' mks = kept_markers st mks"
  by (cases "current_section st"; cases "current_section st'") (simp_all add: kept_markers_def)

lemma kept_Section: "current_section st' \<noteq> None \<Longrightarrow>
    kept_markers st' mks = kept_markers st (SectionMarker # mks)"
  by (cases "current_section st"; cases "current_section st'") (simp_all add: kept_markers_def)

lemma kept_Article:
  "(if current_section st = None then [] else [n]) @ kept_markers st mks
     = kept_markers st (ArticleMarker n # mks)"
  by (cases "current_section st") (simp_all add: kept_markers_def)

lemma step_numbers:
  assumes "seg_step sep st b rest = (st', rest')"
  shows "state_numbers st' @ kept_markers st' (pass_markers rest')
       = state_numbers st @ kept_markers st (pass_markers (b # rest))"
proof (cases "strip (text_b b) = []")
  case True
  with assms have "st' = st" "rest' = rest" by (simp_all add: seg_step_def)
  with True show ?thesis by simp
next
  case False
  note nonblank = False
  show ?thesis
  proof (cases "re_match False section_numeral_pattern (strip (text_b b)) \<noteq> None")
    case True
    obtain parts where la: "look_ahead rest [] = (parts, snd (look_ahead rest []))"
      by (cases "look_ahead rest []") simp
    from assms nonblank True la obtain t where st': "st' = open_section st t"
      and rest': "rest' = snd (look_ahead rest [])"
      by (auto simp: seg_step_def Let_def split: prod.splits)
    have p: "pass_markers (b # rest) = SectionMarker # pass_markers rest'"
      using nonblank True rest' by (simp add: Let_def)
    have c: "current_section st' \<noteq> None"
      by (simp add: st' open_section_def Let_def)
    show ?thesis
      unfolding p using kept_Section[OF c, of "pass_markers rest'" st]
      by (simp add: st' state_numbers_open_section)
  next
    case False
    note nosection = False
    show ?thesis
    proof (cases "match_article article_patterns (strip (text_b b))")
      case (Some m)
      obtain num tt where m: "m = (num, tt)" by (cases m)
      from assms nonblank nosection Some m have st': "st' = open_article st num tt"
        and rest': "rest' = rest"
        by (simp_all add: seg_step_def Let_def)
      have p: "pass_markers (b # rest) = ArticleMarker num # pass_markers rest"
        using nonblank nosection Some m by (simp add: Let_def)
      have k: "kept_markers st' (pass_markers rest) = kept_markers st (pass_markers rest)"
        by (rule kept_cong) (simp add: st' current_section_open_article_None)
      show ?thesis
        unfolding p rest' k
        using kept_Article[of st num "pass_markers rest"]
        by (simp add: st' state_numbers_open_article)
    next
      case None
      have p: "pass_markers (b # rest) = pass_markers rest"
        using nonblank nosection None by (simp add: Let_def)
      from assms nonblank nosection None have rest': "rest' = rest"
        by (auto simp: seg_step_def Let_def split: option.splits if_splits)
      from assms nonblank nosection None have
        same: "sections st' = sections st \<and> current_section st' = current_section st \<and>
               current_article st' = current_article st"
        by (auto simp: seg_step_def Let_def split: option.splits if_splits)
      then have n: "state_numbers st' = state_numbers st"
        unfolding state_numbers_def by (elim conjE) (simp only:)
      have k: "kept_markers st' (pass_markers rest) = kept_markers st (pass_markers rest)"
        by (rule kept_cong) (simp add: same)
      show ?thesis unfolding p rest' k n ..
    qed
  qed
qed

lemma seg_loop_numbers:
  "state_numbers (seg_loop sep st bs) = state_numbers st @ kept_markers st (pass_markers bs)"
proof (induction sep st bs rule: seg_loop.induct)
  case (1 sep st)
  show ?case by (cases "current_section st") (simp_all add: kept_markers_def)
next
  case (2 sep st b rest)
  obtain st' rest' where s: "seg_step sep st b rest = (st', rest')"
    by (cases "seg_step sep st b rest")
  have "state_numbers (seg_loop sep st (b # rest)) = state_numbers (seg_loop sep st' rest')"
    using s by simp
  also have "\<dots> = state_numbers st' @ kept_markers st' (pass_markers rest')"
    by (rule "2.IH"[OF s[symmetric]])
  also have "\<dots> = state_numbers st @ kept_markers st (pass_markers (b # rest))"
    using s by (rule step_numbers)
  finally show ?case .
qed

text \<open>
  Claim C2, amended. The articles of the output, over all sections and in output order, are
  the article markers matched during the pass after the first section marker was matched, in
  match order; so their number is the number of those matches. An article matched before any
  section is open is dropped.
\<close>

theorem articles_are_markers_after_first_section:
  "numbers_of (split_into_sections_and_articles_with_layout blocks)
     = article_markers (after_first_section (pass_markers blocks)) \<and>
   length (concat (map articles (split_into_sections_and_articles_with_layout blocks)))
     = length (article_markers (after_first_section (pass_markers blocks)))"
proof -
  let ?st = "seg_loop (find_column_separator blocks) init_state blocks"
  have "numbers_of (split_into_sections_and_articles_with_layout blocks)
      = numbers_of (sections (flush_article ?st)) @
          (case current_section (flush_article ?st) of
             None \<Rightarrow> [] | Some sec \<Rightarrow> map article_number (articles sec))"
    by (simp add: split_into_sections_and_articles_with_layout_def Let_def numbers_of_append
        numbers_of_single split: option.splits)
  also have "\<dots> = state_numbers ?st" by (rule state_numbers_flush)
  also have "\<dots> = state_numbers init_state @ kept_markers init_state (pass_markers blocks)"
    by (rule seg_loop_numbers)
  also have "\<dots> = article_markers (after_first_section (pass_markers blocks))"
    by (simp add: state_numbers_def kept_markers_def init_state_def numbers_of_def)
  finally have n: "numbers_of (split_into_sections_and_articles_with_layout blocks)
     = article_markers (after_first_section (pass_markers blocks))" .
  have "length (concat (map articles (split_into_sections_and_articles_with_layout blocks)))
      = length (numbers_of (split_into_sections_and_articles_with_layout blocks))"
    by (simp add: numbers_of_def)
  with n show ?thesis by simp
qed

text \<open>
  Claim C2, as stated: on the fragments \<open>Art. 1\<close>, \<open>I\<close> the pass matches one article marker
  and the output has no article.
\<close>

theorem articles_before_first_section_counterexample:
  "length (article_markers (pass_markers [frag ''Art. 1'' 10, frag ''I'' 10])) = 1 \<and>
   length (concat (map articles
     (split_into_sections_and_articles_with_layout [frag ''Art. 1'' 10, frag ''I'' 10]))) = 0"
  by code_simp

end
